theory Spec2Isabelle
  imports Complex_Main "HOL-Library.Multiset" "HOL-Library.List_Lexorder" "HOL-Library.Char_ord"
begin

section \<open>JavaScript values\<close>

text \<open>
  A JavaScript number is modelled as an exact rational or \<open>NaN\<close>: every finite double is a
  rational, and the rounding of IEEE arithmetic and the two infinities are outside the model.
  Addition, subtraction and multiplication propagate \<open>NaN\<close> as the language does.
\<close>

datatype jsnum = NaN | Finite rat

instantiation jsnum :: comm_monoid_add
begin

definition zero_jsnum :: jsnum where
  "zero_jsnum = Finite 0"

fun plus_jsnum :: "jsnum \<Rightarrow> jsnum \<Rightarrow> jsnum" where
  "plus_jsnum (Finite a) (Finite b) = Finite (a + b)"
| "plus_jsnum _ _ = NaN"

instance
proof (standard, goal_cases)
  case (1 u v w)
  show ?case
    by (cases u; cases v; cases w; simp)
next
  case (2 u v)
  show ?case
    by (cases u; cases v; simp)
next
  case (3 u)
  show ?case
    by (cases u; simp add: zero_jsnum_def)
qed

end

fun num_sub :: "jsnum \<Rightarrow> jsnum \<Rightarrow> jsnum" where
  "num_sub (Finite a) (Finite b) = Finite (a - b)"
| "num_sub _ _ = NaN"

fun num_mul :: "jsnum \<Rightarrow> jsnum \<Rightarrow> jsnum" where
  "num_mul (Finite a) (Finite b) = Finite (a * b)"
| "num_mul _ _ = NaN"

fun isNaN :: "jsnum \<Rightarrow> bool" where
  "isNaN NaN = True"
| "isNaN (Finite _) = False"

text \<open>The type \<open>string | number\<close> of accessors, x values, split values and panel values.\<close>

datatype prim = PStr string | PNum jsnum

text \<open>
  A raw value of a dataset: a primitive, an object with its own properties, an array, or a
  function, whose body and identity are outside the model. An object may have properties
  besides its own, inherited from its prototype; they are read through \<open>inherited\<close> below.
  A symbol is no value of a dataset in the model; the section on raised errors adds it.
\<close>

datatype jsvalue =
    JUndefined
  | JNull
  | JBoolean bool
  | JNumber jsnum
  | JString string
  | JObject "(string \<times> jsvalue) list"
  | JArray "jsvalue list"
  | JFunction

fun typeof :: "jsvalue \<Rightarrow> string" where
  "typeof JUndefined = ''undefined''"
| "typeof JNull = ''object''"
| "typeof (JBoolean _) = ''boolean''"
| "typeof (JNumber _) = ''number''"
| "typeof (JString _) = ''string''"
| "typeof (JObject _) = ''object''"
| "typeof (JArray _) = ''object''"
| "typeof JFunction = ''function''"

text \<open>
  What the language and its standard library provide and the code relies on, no part of the
  repository: \<open>Number(v)\<close> on a value that is no symbol, the text of a number in a template
  literal or as a property name, \<open>JSON.stringify(v)\<close>, and the property of a given name that
  a value has without owning it in the model (a property an object or an array inherits from
  its prototype, such as \<open>constructor\<close>, or a property of the wrapper of a primitive), which
  is \<open>undefined\<close> when there is none. Every operation that needs one takes them as a
  parameter.
\<close>

record builtins =
  toNumber :: "jsvalue \<Rightarrow> jsnum"
  numToString :: "jsnum \<Rightarrow> string"
  jsonStringify :: "jsvalue \<Rightarrow> string"
  inherited :: "jsvalue \<Rightarrow> string \<Rightarrow> jsvalue"

text \<open>Truthiness of a \<open>string | number | undefined\<close> value; \<open>None\<close> is \<open>undefined\<close>.\<close>

fun truthy_prim :: "prim option \<Rightarrow> bool" where
  "truthy_prim None = False"
| "truthy_prim (Some (PStr s)) = (s \<noteq> [])"
| "truthy_prim (Some (PNum n)) = (n \<noteq> NaN \<and> n \<noteq> Finite 0)"

text \<open>The text of a \<open>string | number\<close> inside a template literal.\<close>

fun prim_text :: "builtins \<Rightarrow> prim \<Rightarrow> string" where
  "prim_text B (PStr s) = s"
| "prim_text B (PNum n) = numToString B n"

section \<open>Insertion-ordered maps and sets\<close>

text \<open>
  A \<open>Map\<close> whose iteration order is observed is an association list in insertion order:
  \<open>set\<close> on a present key replaces the value in place, on an absent key appends the entry;
  \<open>get\<close> is \<open>map_of\<close>. A \<open>Set\<close> is a list in insertion order without repetitions.
\<close>

fun map_set :: "'k \<Rightarrow> 'v \<Rightarrow> ('k \<times> 'v) list \<Rightarrow> ('k \<times> 'v) list" where
  "map_set k v [] = [(k, v)]"
| "map_set k v (e # m) = (if fst e = k then (k, v) # m else e # map_set k v m)"

fun set_add :: "'a \<Rightarrow> 'a list \<Rightarrow> 'a list" where
  "set_add x [] = [x]"
| "set_add x (y # ys) = (if y = x then y # ys else y # set_add x ys)"

definition new_Set :: "'a list \<Rightarrow> 'a list" where
  "new_Set xs = fold set_add xs []"

section \<open>Color resolution\<close>

type_synonym Color = string
type_synonym SeriesKey = string

record ColorOverrides =
  temporary :: "SeriesKey \<rightharpoonup> Color"
  persisted :: "SeriesKey \<rightharpoonup> Color"

record ColorConfig =
  vizColors :: "Color list"

text \<open>Truthiness of a \<open>Color | undefined\<close>: defined and not the empty string.\<close>

fun truthy_color :: "Color option \<Rightarrow> bool" where
  "truthy_color None = False"
| "truthy_color (Some c) = (c \<noteq> [])"

definition getHighestOverride ::
  "SeriesKey \<Rightarrow> (SeriesKey \<rightharpoonup> Color) \<Rightarrow> ColorOverrides \<Rightarrow> Color option" where
  "getHighestOverride key customColors overrides =
     (let color = temporary overrides key in
      if truthy_color color then color
      else let color = customColors key in
        if truthy_color color then color
        else persisted overrides key)"

text \<open>
  \<open>vizColors[counter % vizColors.length]\<close>: on an empty palette the index is \<open>NaN\<close> and
  the read gives \<open>undefined\<close>.
\<close>

definition palette_at :: "ColorConfig \<Rightarrow> nat \<Rightarrow> Color option" where
  "palette_at chartColors counter =
     (if vizColors chartColors = [] then None
      else Some (vizColors chartColors ! (counter mod length (vizColors chartColors))))"

definition series_color_step ::
  "ColorConfig \<Rightarrow> (SeriesKey \<rightharpoonup> Color) \<Rightarrow> ColorOverrides \<Rightarrow> SeriesKey \<times> 'v \<Rightarrow>
   (SeriesKey \<times> Color option) list \<times> nat \<Rightarrow> (SeriesKey \<times> Color option) list \<times> nat" where
  "series_color_step chartColors customColors overrides entry st =
     (let seriesKey = fst entry;
          seriesColorMap = fst st;
          counter = snd st;
          colorOverride = getHighestOverride seriesKey customColors overrides;
          color = (if truthy_color colorOverride then colorOverride
                   else palette_at chartColors counter)
      in (map_set seriesKey color seriesColorMap, counter + 1))"

definition getSeriesColors ::
  "(SeriesKey \<times> 'v) list \<Rightarrow> ColorConfig \<Rightarrow> (SeriesKey \<rightharpoonup> Color) \<Rightarrow> ColorOverrides \<Rightarrow>
   (SeriesKey \<times> Color option) list" where
  "getSeriesColors seriesCollection chartColors customColors overrides =
     fst (fold (series_color_step chartColors customColors overrides) seriesCollection ([], 0))"

text \<open>
  The color the loop of \<open>getSeriesColors\<close> stores for a key met at position \<open>i\<close>;
  used to state the closed form of the fold.
\<close>

definition color_at ::
  "ColorConfig \<Rightarrow> (SeriesKey \<rightharpoonup> Color) \<Rightarrow> ColorOverrides \<Rightarrow> nat \<Rightarrow> SeriesKey \<Rightarrow> Color option" where
  "color_at cc cu ov i k =
     (if truthy_color (getHighestOverride k cu ov) then getHighestOverride k cu ov
      else palette_at cc i)"

section \<open>Sorting an array with a comparator\<close>

text \<open>
  \<open>Array.prototype.sort(compareFn)\<close>. The language fixes the result only for a consistent
  comparator, where it is the stable sort; the model is the stable insertion sort: the
  elements are inserted from the last to the first, each before the first element that the
  comparator does not rank it after, so that elements the comparator does not tell apart
  keep their order. A comparator result that is \<open>NaN\<close> counts as \<open>0\<close>, as the language says.
\<close>

fun cmp_pos :: "jsnum \<Rightarrow> bool" where
  "cmp_pos NaN = False"
| "cmp_pos (Finite q) = (0 < q)"

fun js_insort :: "('a \<Rightarrow> 'a \<Rightarrow> jsnum) \<Rightarrow> 'a \<Rightarrow> 'a list \<Rightarrow> 'a list" where
  "js_insort cmp a [] = [a]"
| "js_insort cmp a (b # bs) = (if cmp_pos (cmp a b) then b # js_insort cmp a bs else a # b # bs)"

definition js_sort :: "('a \<Rightarrow> 'a \<Rightarrow> jsnum) \<Rightarrow> 'a list \<Rightarrow> 'a list" where
  "js_sort cmp as = foldr (js_insort cmp) as []"

text \<open>\<open>Array.prototype.join(separator)\<close> on an array of strings.\<close>

fun join :: "string \<Rightarrow> string list \<Rightarrow> string" where
  "join sep [] = []"
| "join sep [s] = s"
| "join sep (s # t # ts) = s @ sep @ join sep (t # ts)"

text \<open>\<open>new Map(entries)\<close>: the entries are set one after the other.\<close>

definition new_Map :: "('k \<times> 'v) list \<Rightarrow> ('k \<times> 'v) list" where
  "new_Map entries = fold (\<lambda>e m. map_set (fst e) (snd e) m) entries []"

text \<open>
  The relational operator \<open>a > b\<close> on two \<open>string | number\<close> values: two strings are
  compared as strings, by their code units; otherwise a string operand is converted with
  \<open>Number\<close> and the comparison is numeric, false when an operand is \<open>NaN\<close>.
\<close>

fun num_gt :: "jsnum \<Rightarrow> jsnum \<Rightarrow> bool" where
  "num_gt (Finite a) (Finite b) = (b < a)"
| "num_gt _ _ = False"

fun js_gt :: "builtins \<Rightarrow> prim \<Rightarrow> prim \<Rightarrow> bool" where
  "js_gt B (PStr a) (PStr b) = (b < a)"
| "js_gt B (PNum a) (PNum b) = num_gt a b"
| "js_gt B (PStr a) (PNum b) = num_gt (toNumber B (JString a)) b"
| "js_gt B (PNum a) (PStr b) = num_gt a (toNumber B (JString b))"

section \<open>Specs, series and data\<close>

datatype SeriesTypes = Area | Bar | Line | Bubble

datatype StackMode = Percentage | Wiggle | Silhouette

datatype ScaleType = Linear | Ordinal | Log | Sqrt | Time

text \<open>An accessor is a property name (\<open>Accessor\<close>) or a function of the record (\<open>AccessorFn\<close>).\<close>

datatype accessor = Accessor prim | AccessorFn "jsvalue \<Rightarrow> jsvalue"

text \<open>
  The fields of a series spec that the transformation reads. The record fields carry the
  prefix \<open>spec_\<close>: the source names are the names of local variables throughout.
\<close>

record BasicSeriesSpec =
  spec_id :: string
  spec_groupId :: string
  spec_seriesType :: SeriesTypes
  spec_data :: "jsvalue list"
  spec_xAccessor :: accessor
  spec_yAccessors :: "prim list"
  spec_y0Accessors :: "prim list option"
  spec_markSizeAccessor :: "accessor option"
  spec_splitSeriesAccessors :: "prim list option"
  spec_xScaleType :: ScaleType
  spec_sortIndex :: "jsnum option"

text \<open>
  The result of \<open>extractYAndMarkFromDatum\<close> and a datum of a series (\<open>newDatum\<close>, the
  extracted fields with \<open>x\<close>, \<open>smH\<close> and \<open>smV\<close>). A \<open>number | null\<close> is a \<open>jsnum option\<close>.
\<close>

record CleanedDatum =
  c_y1 :: "jsnum option"
  c_datum :: jsvalue
  c_y0 :: "jsnum option"
  c_mark :: "jsnum option"
  c_initialY0 :: "jsnum option"
  c_initialY1 :: "jsnum option"

record DataSeriesDatum =
  d_x :: prim
  d_y1 :: "jsnum option"
  d_datum :: jsvalue
  d_y0 :: "jsnum option"
  d_mark :: "jsnum option"
  d_initialY0 :: "jsnum option"
  d_initialY1 :: "jsnum option"
  d_smH :: "prim option"
  d_smV :: "prim option"

text \<open>
  A series without its data (what \<open>getDataSeriesFromSpecs\<close> stores as \<open>seriesIdentifier\<close>),
  and a series.
\<close>

record XYChartSeriesIdentifier =
  s_specId :: string
  s_groupId :: string
  s_seriesType :: SeriesTypes
  s_yAccessor :: prim
  s_splitAccessors :: "(prim \<times> prim) list"
  s_smVerticalAccessorValue :: "prim option"
  s_smHorizontalAccessorValue :: "prim option"
  s_stackMode :: "StackMode option"
  s_isStacked :: bool
  s_seriesKeys :: "prim list"
  s_key :: SeriesKey
  s_spec :: BasicSeriesSpec

record DataSeries = XYChartSeriesIdentifier +
  s_data :: "DataSeriesDatum list"

record SeriesCollectionValue =
  banded :: "bool option"
  specSortIndex :: "jsnum option"
  seriesIdentifier :: XYChartSeriesIdentifier

text \<open>
  The small-multiples argument: each of \<open>vertical\<close> and \<open>horizontal\<close> is the \<open>by\<close> function
  of its \<open>GroupBySpec\<close>, absent when the group or its function is. The function may answer
  \<open>null\<close> or \<open>undefined\<close> (\<open>None\<close>).
\<close>

type_synonym GroupByAccessor = "BasicSeriesSpec \<Rightarrow> jsvalue \<Rightarrow> prim option"

record SmallMultiples =
  vertical :: "GroupByAccessor option"
  horizontal :: "GroupByAccessor option"

text \<open>
  Modelled from the spec: \<open>DEFAULT_SINGLE_PANEL_SM_VALUE\<close>, a constant of the specs module,
  which is not among the sources; the spec calls it the single-panel sentinel. Any
  non-empty string serves.
\<close>

definition DEFAULT_SINGLE_PANEL_SM_VALUE :: prim where
  "DEFAULT_SINGLE_PANEL_SM_VALUE = PStr ''__ECH_DEFAULT_SINGLE_PANEL_SM_VALUE__''"

text \<open>
  Modelled from the spec: the ordering policy \<open>OrderBy\<close> of the settings module, with its
  aggregation kinds \<open>BinAgg\<close> (none or sum) and its directions (ascending or descending).
  Both fields are strings, so that an unknown kind can be written.
\<close>

record OrderBy =
  binAgg :: "string option"
  direction :: "string option"

definition BinAgg_None :: string where
  "BinAgg_None = ''none''"

definition BinAgg_Sum :: string where
  "BinAgg_Sum = ''sum''"

definition Direction_Ascending :: string where
  "Direction_Ascending = ''ascending''"

definition Direction_Descending :: string where
  "Direction_Descending = ''descending''"

section \<open>Sort index and ordinal ordering\<close>

definition getSortIndex :: "SeriesCollectionValue \<Rightarrow> jsnum \<Rightarrow> jsnum" where
  "getSortIndex v total' = (case specSortIndex v of Some i \<Rightarrow> i | None \<Rightarrow> total')"

text \<open>The size of a collection as a number.\<close>

definition size_num :: "'a list \<Rightarrow> jsnum" where
  "size_num as = Finite (of_nat (length as))"

definition getSortedDataSeriesColorsValuesMap ::
  "(SeriesKey \<times> SeriesCollectionValue) list \<Rightarrow> (SeriesKey \<times> SeriesCollectionValue) list" where
  "getSortedDataSeriesColorsValuesMap seriesCollection =
     (let seriesColorsArray =
        js_sort (\<lambda>specA specB. num_sub (getSortIndex (snd specA) (size_num seriesCollection))
                                        (getSortIndex (snd specB) (size_num seriesCollection)))
          seriesCollection
      in new_Map seriesColorsArray)"

text \<open>\<open>xValueSums.get(v) ?? 0\<close>.\<close>

definition sum_of :: "(prim \<rightharpoonup> jsnum) \<Rightarrow> prim \<Rightarrow> jsnum" where
  "sum_of xValueSums v = (case xValueSums v of Some s \<Rightarrow> s | None \<Rightarrow> 0)"

definition getSortedOrdinalXValues ::
  "prim list \<Rightarrow> (prim \<rightharpoonup> jsnum) \<Rightarrow> OrderBy option \<Rightarrow> prim list" where
  "getSortedOrdinalXValues xValues xValueSums orderOrdinalBinsBy =
     (case orderOrdinalBinsBy of
        None \<Rightarrow> xValues
      | Some orderBy \<Rightarrow>
          if binAgg orderBy = Some BinAgg_None then xValues
          else new_Set (js_sort
            (\<lambda>v1 v2. num_mul
               (if direction orderBy = Some Direction_Ascending then Finite 1 else Finite (- 1))
               (num_sub (sum_of xValueSums v1) (sum_of xValueSums v2)))
            xValues))"

section \<open>The series key\<close>

text \<open>One of the two panel segments of the key: empty unless the panel value is truthy.\<close>

definition panel_segment :: "builtins \<Rightarrow> string \<Rightarrow> prim option \<Rightarrow> string" where
  "panel_segment B tag v =
     (case v of
        None \<Rightarrow> []
      | Some p \<Rightarrow> if truthy_prim (Some p) then tag @ ''{'' @ prim_text B p @ ''}'' else [])"

definition getSeriesKey ::
  "builtins \<Rightarrow> string \<Rightarrow> prim \<Rightarrow> (prim \<times> prim) list \<Rightarrow> prim option \<Rightarrow> prim option \<Rightarrow> string \<Rightarrow>
   SeriesKey" where
  "getSeriesKey B specId yAccessor splitAccessors smVerticalAccessorValue
       smHorizontalAccessorValue groupId =
     (let joinedAccessors =
            join ''|''
              (map (\<lambda>e. prim_text B (fst e) @ ''-'' @ prim_text B (snd e))
                 (js_sort (\<lambda>a b. if js_gt B (fst a) (fst b) then Finite 1 else Finite (- 1))
                    splitAccessors));
          smV = panel_segment B ''smV'' smVerticalAccessorValue;
          smH = panel_segment B ''smH'' smHorizontalAccessorValue
      in ''groupId{'' @ groupId @ ''}spec{'' @ specId @ ''}yAccessor{'' @ prim_text B yAccessor
           @ ''}splitAccessors{'' @ joinedAccessors @ ''}'' @ smV @ smH)"

section \<open>Extracting values from a record\<close>

text \<open>
  The own properties of an array: its elements under the texts of their indices, and its
  length.
\<close>

definition array_props :: "builtins \<Rightarrow> jsvalue list \<Rightarrow> (string \<times> jsvalue) list" where
  "array_props B vs =
     zip (map (\<lambda>i. numToString B (Finite (of_nat i))) [0 ..< length vs]) vs
       @ [(''length'', JNumber (Finite (of_nat (length vs))))]"

text \<open>
  \<open>datum[accessor]\<close>: the property whose name is the text of the accessor, an own property
  first and an inherited one otherwise. The splitter reads properties only of values that
  passed its object test; the read from \<open>null\<close> or \<open>undefined\<close>, which raises, is a branch
  of \<open>read_prop\<close> in the section on raised errors.
\<close>

definition get_prop :: "builtins \<Rightarrow> jsvalue \<Rightarrow> prim \<Rightarrow> jsvalue" where
  "get_prop B datum accessor =
     (case datum of
        JObject props \<Rightarrow>
          (case map_of props (prim_text B accessor) of
             Some v \<Rightarrow> v
           | None \<Rightarrow> inherited B datum (prim_text B accessor))
      | JArray vs \<Rightarrow>
          (case map_of (array_props B vs) (prim_text B accessor) of
             Some v \<Rightarrow> v
           | None \<Rightarrow> inherited B datum (prim_text B accessor))
      | JUndefined \<Rightarrow> JUndefined
      | JNull \<Rightarrow> JUndefined
      | _ \<Rightarrow> inherited B datum (prim_text B accessor))"

text \<open>
  Modelled from the spec: \<open>getAccessorValue\<close> of the accessor utilities, which are not among
  the sources; the spec describes a value-getter that is either a field lookup or an
  injected function of the record.
\<close>

fun getAccessorValue :: "builtins \<Rightarrow> jsvalue \<Rightarrow> accessor \<Rightarrow> jsvalue" where
  "getAccessorValue B datum (AccessorFn f) = f datum"
| "getAccessorValue B datum (Accessor a) = get_prop B datum a"

definition is_object :: "jsvalue \<Rightarrow> bool" where
  "is_object datum = (typeof datum = ''object'' \<and> datum \<noteq> JNull)"

definition getSplitAccessors :: "builtins \<Rightarrow> jsvalue \<Rightarrow> prim list \<Rightarrow> (prim \<times> prim) list" where
  "getSplitAccessors B datum accessors =
     (if is_object datum then
        fold (\<lambda>accessor splitAccessors.
                case get_prop B datum accessor of
                  JString s \<Rightarrow> map_set accessor (PStr s) splitAccessors
                | JNumber n \<Rightarrow> map_set accessor (PNum n) splitAccessors
                | _ \<Rightarrow> splitAccessors)
          accessors []
      else [])"

text \<open>
  \<open>castToNumber\<close> returns the number or \<open>null\<close>, and the list of offenders, which the code
  extends in place. This is the function on the values of a dataset, and
  \<open>extractYAndMarkFromDatum\<close> below the function on a record that passed the object test,
  as the splitter calls them; the section on raised errors has both on every input.
\<close>

definition castToNumber :: "builtins \<Rightarrow> jsvalue \<Rightarrow> jsvalue list \<Rightarrow> jsnum option \<times> jsvalue list" where
  "castToNumber B v nonNumericValues =
     (if v = JNull \<or> v = JUndefined then (None, nonNumericValues)
      else let num = toNumber B v in
        if isNaN num then (None, nonNumericValues @ [v])
        else (Some num, nonNumericValues))"

definition extractYAndMarkFromDatum ::
  "builtins \<Rightarrow> jsvalue \<Rightarrow> prim \<Rightarrow> jsvalue list \<Rightarrow> prim option \<Rightarrow> accessor option \<Rightarrow>
   CleanedDatum \<times> jsvalue list" where
  "extractYAndMarkFromDatum B datum yAccessor nonNumericValues y0Accessor markSizeAccessor =
     (let (mark, nn1) =
            (case markSizeAccessor of
               None \<Rightarrow> (None, nonNumericValues)
             | Some a \<Rightarrow> castToNumber B (getAccessorValue B datum a) nonNumericValues);
          (y1, nn2) = castToNumber B (get_prop B datum yAccessor) nn1;
          (y0, nn3) =
            (case y0Accessor of
               None \<Rightarrow> (None, nn2)
             | Some a \<Rightarrow> if truthy_prim (Some a) then castToNumber B (get_prop B datum a) nn2
                         else (None, nn2))
      in (\<lparr>c_y1 = y1, c_datum = datum, c_y0 = y0, c_mark = mark,
            c_initialY0 = y0, c_initialY1 = y1\<rparr>, nn3))"

section \<open>Raised errors\<close>









section \<open>Splitting the data of a spec into series\<close>

text \<open>
  What \<open>splitSeriesDataByAccessors\<close> builds while it runs: its four results, the list of
  non-numeric offenders, and the map of sums of its caller, which it updates in place.
  The map of sums is only ever read by key, so it is a partial function.
\<close>

record SplitState =
  st_dataSeries :: "(SeriesKey \<times> DataSeries) list"
  st_xValues :: "prim list"
  st_smVValues :: "prim list"
  st_smHValues :: "prim list"
  st_nonNumericValues :: "jsvalue list"
  st_xValueSums :: "prim \<rightharpoonup> jsnum"

text \<open>
  The head of the loop body, the same in both branches: the three tests that skip a record
  (\<open>None\<close>), and otherwise the x value and the split accessors of the record.
\<close>

definition datum_head ::
  "builtins \<Rightarrow> BasicSeriesSpec \<Rightarrow> jsvalue \<Rightarrow> (prim \<times> (prim \<times> prim) list) option" where
  "datum_head B spec datum =
     (let splitSeriesAccessors =
            (case spec_splitSeriesAccessors spec of None \<Rightarrow> [] | Some as \<Rightarrow> as);
          splitAccessors = getSplitAccessors B datum splitSeriesAccessors
      in if length splitSeriesAccessors > 0 \<and> length splitAccessors < 1 then None
         else if typeof datum \<noteq> ''object'' \<or> datum = JNull then None
         else (case getAccessorValue B datum (spec_xAccessor spec) of
                 JString s \<Rightarrow> Some (PStr s, splitAccessors)
               | JNumber n \<Rightarrow> Some (PNum n, splitAccessors)
               | _ \<Rightarrow> None))"

text \<open>
  The panel value of a record: the answer of the \<open>by\<close> function when there is one, the
  single-panel sentinel otherwise; and its addition to the set of panel values unless nil.
\<close>

definition sm_value :: "GroupByAccessor option \<Rightarrow> BasicSeriesSpec \<Rightarrow> jsvalue \<Rightarrow> prim option" where
  "sm_value by_fn spec datum =
     (case by_fn of Some f \<Rightarrow> f spec datum | None \<Rightarrow> Some DEFAULT_SINGLE_PANEL_SM_VALUE)"

definition sm_horizontal :: "SmallMultiples option \<Rightarrow> GroupByAccessor option" where
  "sm_horizontal smallMultiples = (case smallMultiples of None \<Rightarrow> None | Some m \<Rightarrow> horizontal m)"

definition sm_vertical :: "SmallMultiples option \<Rightarrow> GroupByAccessor option" where
  "sm_vertical smallMultiples = (case smallMultiples of None \<Rightarrow> None | Some m \<Rightarrow> vertical m)"

definition add_sm :: "prim option \<Rightarrow> prim list \<Rightarrow> prim list" where
  "add_sm v vs = (case v of None \<Rightarrow> vs | Some p \<Rightarrow> set_add p vs)"

text \<open>\<open>y0Accessors && y0Accessors[index]\<close>.\<close>

definition y0_at :: "BasicSeriesSpec \<Rightarrow> nat \<Rightarrow> prim option" where
  "y0_at spec index =
     (case spec_y0Accessors spec of
        None \<Rightarrow> None
      | Some ys \<Rightarrow> if index < length ys then Some (ys ! index) else None)"

text \<open>
  The body run for a record and a y accessor, the same in both branches: extract the values,
  build the identifier and its key, and append the datum to the series of that key, which is
  created when the key is new. It answers the series, the offenders and \<open>y1\<close>.
\<close>

definition series_step ::
  "builtins \<Rightarrow> BasicSeriesSpec \<Rightarrow> bool \<Rightarrow> StackMode option \<Rightarrow> jsvalue \<Rightarrow> prim \<Rightarrow>
   (prim \<times> prim) list \<Rightarrow> prim option \<Rightarrow> prim option \<Rightarrow> prim \<Rightarrow> nat \<Rightarrow>
   (SeriesKey \<times> DataSeries) list \<Rightarrow> jsvalue list \<Rightarrow>
   (SeriesKey \<times> DataSeries) list \<times> jsvalue list \<times> jsnum option" where
  "series_step B spec isStacked stackMode datum x splitAccessors smH smV accessor index
       dataSeries nonNumericValues =
     (let (cleanedDatum, nn) =
            extractYAndMarkFromDatum B datum accessor nonNumericValues (y0_at spec index)
              (spec_markSizeAccessor spec);
          seriesKeys = map snd splitAccessors @ [accessor];
          seriesKey = getSeriesKey B (spec_id spec) accessor splitAccessors smV smH
                        (spec_groupId spec);
          newDatum = \<lparr>d_x = x, d_y1 = c_y1 cleanedDatum, d_datum = c_datum cleanedDatum,
                      d_y0 = c_y0 cleanedDatum, d_mark = c_mark cleanedDatum,
                      d_initialY0 = c_initialY0 cleanedDatum,
                      d_initialY1 = c_initialY1 cleanedDatum, d_smH = smH, d_smV = smV\<rparr>
      in (case map_of dataSeries seriesKey of
            Some series \<Rightarrow>
              (map_set seriesKey (series\<lparr>s_data := s_data series @ [newDatum]\<rparr>) dataSeries,
               nn, c_y1 cleanedDatum)
          | None \<Rightarrow>
              (map_set seriesKey
                 \<lparr>s_specId = spec_id spec, s_groupId = spec_groupId spec,
                  s_seriesType = spec_seriesType spec, s_yAccessor = accessor,
                  s_splitAccessors = splitAccessors, s_smVerticalAccessorValue = smV,
                  s_smHorizontalAccessorValue = smH, s_stackMode = stackMode,
                  s_isStacked = isStacked, s_seriesKeys = seriesKeys, s_key = seriesKey,
                  s_spec = spec, s_data = [newDatum]\<rparr> dataSeries,
               nn, c_y1 cleanedDatum)))"

text \<open>\<open>cleanedDatum.y1 ?? 0\<close>.\<close>

definition or_zero :: "jsnum option \<Rightarrow> jsnum" where
  "or_zero v = (case v of None \<Rightarrow> 0 | Some n \<Rightarrow> n)"

text \<open>The legacy branch: the body of the inner loop, for one y accessor and one record.\<close>

definition legacy_datum_step ::
  "builtins \<Rightarrow> BasicSeriesSpec \<Rightarrow> bool \<Rightarrow> StackMode option \<Rightarrow> SmallMultiples option \<Rightarrow>
   prim \<Rightarrow> nat \<Rightarrow> jsvalue \<Rightarrow> SplitState \<Rightarrow> SplitState" where
  "legacy_datum_step B spec isStacked stackMode smallMultiples accessor index datum st =
     (case datum_head B spec datum of
        None \<Rightarrow> st
      | Some (x, splitAccessors) \<Rightarrow>
          (let xValues = st_xValues st @ [x];
               sum0 = sum_of (st_xValueSums st) x;
               smH = sm_value (sm_horizontal smallMultiples) spec datum;
               smHValues = add_sm smH (st_smHValues st);
               smV = sm_value (sm_vertical smallMultiples) spec datum;
               smVValues = add_sm smV (st_smVValues st);
               (dataSeries, nn, y1) =
                 series_step B spec isStacked stackMode datum x splitAccessors smH smV
                   accessor index (st_dataSeries st) (st_nonNumericValues st);
               sum1 = sum0 + or_zero y1
           in \<lparr>st_dataSeries = dataSeries, st_xValues = xValues, st_smVValues = smVValues,
               st_smHValues = smHValues, st_nonNumericValues = nn,
               st_xValueSums = (st_xValueSums st)(x \<mapsto> sum1)\<rparr>))"

text \<open>
  The default branch: the body of \<open>yAccessors.forEach\<close> for one record, on the series, the
  offenders, the map of sums and the local variable \<open>sum\<close>; and the body of the loop over
  the records.
\<close>

definition accessor_step ::
  "builtins \<Rightarrow> BasicSeriesSpec \<Rightarrow> bool \<Rightarrow> StackMode option \<Rightarrow> jsvalue \<Rightarrow> prim \<Rightarrow>
   (prim \<times> prim) list \<Rightarrow> prim option \<Rightarrow> prim option \<Rightarrow> prim \<times> nat \<Rightarrow>
   (SeriesKey \<times> DataSeries) list \<times> jsvalue list \<times> (prim \<rightharpoonup> jsnum) \<times> jsnum \<Rightarrow>
   (SeriesKey \<times> DataSeries) list \<times> jsvalue list \<times> (prim \<rightharpoonup> jsnum) \<times> jsnum" where
  "accessor_step B spec isStacked stackMode datum x splitAccessors smH smV ai acc =
     (case acc of (dataSeries, nonNumericValues, xValueSums, sum0) \<Rightarrow>
        (let (dataSeries', nn, y1) =
               series_step B spec isStacked stackMode datum x splitAccessors smH smV
                 (fst ai) (snd ai) dataSeries nonNumericValues;
             sum1 = sum0 + or_zero y1
         in (dataSeries', nn, xValueSums(x \<mapsto> sum1), sum1)))"

text \<open>\<open>yAccessors.forEach((accessor, index) => ...)\<close> visits the accessors with their indices.\<close>

definition indexed :: "'a list \<Rightarrow> ('a \<times> nat) list" where
  "indexed as = zip as [0 ..< length as]"

definition default_datum_step ::
  "builtins \<Rightarrow> BasicSeriesSpec \<Rightarrow> bool \<Rightarrow> StackMode option \<Rightarrow> SmallMultiples option \<Rightarrow>
   jsvalue \<Rightarrow> SplitState \<Rightarrow> SplitState" where
  "default_datum_step B spec isStacked stackMode smallMultiples datum st =
     (case datum_head B spec datum of
        None \<Rightarrow> st
      | Some (x, splitAccessors) \<Rightarrow>
          (let xValues = st_xValues st @ [x];
               sum0 = sum_of (st_xValueSums st) x;
               smH = sm_value (sm_horizontal smallMultiples) spec datum;
               smHValues = add_sm smH (st_smHValues st);
               smV = sm_value (sm_vertical smallMultiples) spec datum;
               smVValues = add_sm smV (st_smVValues st);
               (dataSeries, nn, xValueSums, sum1) =
                 fold (accessor_step B spec isStacked stackMode datum x splitAccessors smH smV)
                   (indexed (spec_yAccessors spec))
                   (st_dataSeries st, st_nonNumericValues st, st_xValueSums st, sum0)
           in \<lparr>st_dataSeries = dataSeries, st_xValues = xValues, st_smVValues = smVValues,
               st_smHValues = smHValues, st_nonNumericValues = nn,
               st_xValueSums = xValueSums\<rparr>))"

text \<open>The state after the branch chosen by \<open>enableVislibSeriesSort\<close>.\<close>

definition split_traverse ::
  "builtins \<Rightarrow> BasicSeriesSpec \<Rightarrow> (prim \<rightharpoonup> jsnum) \<Rightarrow> bool \<Rightarrow> bool \<Rightarrow> StackMode option \<Rightarrow>
   SmallMultiples option \<Rightarrow> SplitState" where
  "split_traverse B spec xValueSums isStacked enableVislibSeriesSort stackMode smallMultiples =
     (let st0 = \<lparr>st_dataSeries = [], st_xValues = [], st_smVValues = [], st_smHValues = [],
                 st_nonNumericValues = [], st_xValueSums = xValueSums\<rparr>
      in if enableVislibSeriesSort then
           fold (\<lambda>ai st.
                   fold (legacy_datum_step B spec isStacked stackMode smallMultiples
                           (fst ai) (snd ai))
                     (spec_data spec) st)
             (indexed (spec_yAccessors spec)) st0
         else
           fold (default_datum_step B spec isStacked stackMode smallMultiples)
             (spec_data spec) st0)"

text \<open>
  The results of \<open>splitSeriesDataByAccessors\<close>, with its two effects: the map of sums after
  the call, and the calls of \<open>Logger.warn\<close>, each with its two arguments.
\<close>

record SplitResult =
  r_dataSeries :: "(SeriesKey \<times> DataSeries) list"
  r_xValues :: "prim list"
  r_smVValues :: "prim list"
  r_smHValues :: "prim list"
  r_xValueSums :: "prim \<rightharpoonup> jsnum"
  r_warnings :: "(string \<times> string) list"

definition warning_of :: "builtins \<Rightarrow> string \<Rightarrow> jsvalue list \<Rightarrow> string \<times> string" where
  "warning_of B specId nonNumericValues =
     (''Found non-numeric y value'' @ (if length nonNumericValues > 1 then ''s'' else [])
        @ '' in dataset for spec '' @ [CHR 0x22] @ specId @ [CHR 0x22],
      ''('' @ join '', '' (map (jsonStringify B) nonNumericValues) @ '')'')"

definition splitSeriesDataByAccessors ::
  "builtins \<Rightarrow> BasicSeriesSpec \<Rightarrow> (prim \<rightharpoonup> jsnum) \<Rightarrow> bool \<Rightarrow> bool \<Rightarrow> StackMode option \<Rightarrow>
   SmallMultiples option \<Rightarrow> SplitResult" where
  "splitSeriesDataByAccessors B spec xValueSums isStacked enableVislibSeriesSort stackMode
       smallMultiples =
     (let st = split_traverse B spec xValueSums isStacked enableVislibSeriesSort stackMode
                 smallMultiples;
          warnings = (if length (st_nonNumericValues st) > 0
                      then [warning_of B (spec_id spec) (st_nonNumericValues st)] else [])
      in \<lparr>r_dataSeries = st_dataSeries st, r_xValues = st_xValues st,
          r_smVValues = st_smVValues st, r_smHValues = st_smHValues st,
          r_xValueSums = st_xValueSums st, r_warnings = warnings\<rparr>)"

section \<open>Aggregating the specs\<close>

text \<open>
  A group of \<open>groupSeriesByYGroup\<close>, a function of the y-domain module, which is not among
  the sources: \<open>getDataSeriesFromSpecs\<close> takes the function as a parameter and reads the
  stacked specs and the stack mode of the group of each spec.
\<close>

record YGroup =
  yg_stackMode :: "StackMode option"
  yg_stacked :: "BasicSeriesSpec list"
  yg_nonStacked :: "BasicSeriesSpec list"

record GlobalState =
  g_dataSeries :: "DataSeries list"
  g_seriesCollection :: "(SeriesKey \<times> SeriesCollectionValue) list"
  g_xValueSums :: "prim \<rightharpoonup> jsnum"
  g_xValues :: "prim list"
  g_smVValues :: "prim list"
  g_smHValues :: "prim list"
  g_isNumberArray :: bool
  g_isOrdinalScale :: bool
  g_warnings :: "(string \<times> string) list"

fun is_number :: "prim \<Rightarrow> bool" where
  "is_number (PNum _) = True"
| "is_number (PStr _) = False"

text \<open>The loop over the x values of a spec: the nature of the values and the global set.\<close>

definition xValue_step :: "prim \<Rightarrow> bool \<times> prim list \<Rightarrow> bool \<times> prim list" where
  "xValue_step xValue acc =
     (case acc of (isNumberArray, globalXValues) \<Rightarrow>
        ((if isNumberArray \<and> \<not> is_number xValue then False else isNumberArray),
         set_add xValue globalXValues))"

text \<open>The body of the loop over the specs.\<close>

definition spec_step ::
  "builtins \<Rightarrow> (string \<rightharpoonup> YGroup) \<Rightarrow> XYChartSeriesIdentifier list \<Rightarrow> bool \<Rightarrow>
   SmallMultiples option \<Rightarrow> BasicSeriesSpec \<Rightarrow> GlobalState \<Rightarrow> GlobalState" where
  "spec_step B specsByYGroup deselectedDataSeries enableVislibSeriesSort smallMultiples spec g =
     (let isOrdinalScale = (if spec_xScaleType spec = Ordinal then True else g_isOrdinalScale g);
          specGroup = specsByYGroup (spec_groupId spec);
          isStacked =
            (case specGroup of
               None \<Rightarrow> False
             | Some grp \<Rightarrow> find (\<lambda>s. spec_id s = spec_id spec) (yg_stacked grp) \<noteq> None);
          r = splitSeriesDataByAccessors B spec (g_xValueSums g) isStacked enableVislibSeriesSort
                (case specGroup of None \<Rightarrow> None | Some grp \<Rightarrow> yg_stackMode grp)
                smallMultiples;
          filteredDataSeries =
            (if length deselectedDataSeries > 0
             then filter (\<lambda>s. \<not> list_ex (\<lambda>d. s_key s = s_key d) deselectedDataSeries)
                    (map snd (r_dataSeries r))
             else map snd (r_dataSeries r));
          globalDataSeries = g_dataSeries g @ filteredDataSeries;
          banded = (case spec_y0Accessors spec of None \<Rightarrow> None | Some ys \<Rightarrow> Some (length ys > 0));
          seriesCollection =
            fold (\<lambda>e sc. map_set (fst e)
                    \<lparr>banded = banded, specSortIndex = spec_sortIndex spec,
                     seriesIdentifier = XYChartSeriesIdentifier.truncate (snd e)\<rparr> sc)
              (r_dataSeries r) (g_seriesCollection g);
          (isNumberArray, globalXValues) =
            fold xValue_step (r_xValues r) (g_isNumberArray g, g_xValues g);
          globalSMVValues = new_Set (g_smVValues g @ r_smVValues r);
          globalSMHValues = new_Set (g_smHValues g @ r_smHValues r)
      in \<lparr>g_dataSeries = globalDataSeries, g_seriesCollection = seriesCollection,
          g_xValueSums = r_xValueSums r, g_xValues = globalXValues,
          g_smVValues = globalSMVValues, g_smHValues = globalSMHValues,
          g_isNumberArray = isNumberArray, g_isOrdinalScale = isOrdinalScale,
          g_warnings = g_warnings g @ r_warnings r\<rparr>)"

definition specs_loop ::
  "builtins \<Rightarrow> (string \<rightharpoonup> YGroup) \<Rightarrow> XYChartSeriesIdentifier list \<Rightarrow> bool \<Rightarrow>
   SmallMultiples option \<Rightarrow> BasicSeriesSpec list \<Rightarrow> GlobalState" where
  "specs_loop B specsByYGroup deselectedDataSeries enableVislibSeriesSort smallMultiples
       seriesSpecs =
     fold (spec_step B specsByYGroup deselectedDataSeries enableVislibSeriesSort smallMultiples)
       seriesSpecs
       \<lparr>g_dataSeries = [], g_seriesCollection = [], g_xValueSums = Map.empty, g_xValues = [],
        g_smVValues = [], g_smHValues = [], g_isNumberArray = True, g_isOrdinalScale = False,
        g_warnings = []\<rparr>"

text \<open>
  The comparator of the numeric domain: \<open>0\<close> when an operand is a string, the difference
  otherwise.
\<close>

fun numeric_cmp :: "prim \<Rightarrow> prim \<Rightarrow> jsnum" where
  "numeric_cmp (PNum a) (PNum b) = num_sub a b"
| "numeric_cmp _ _ = Finite 0"

record GlobalResult =
  out_dataSeries :: "DataSeries list"
  out_seriesCollection :: "(SeriesKey \<times> SeriesCollectionValue) list"
  out_xValues :: "prim list"
  out_smVValues :: "prim list"
  out_smHValues :: "prim list"
  fallbackScale :: "ScaleType option"
  out_warnings :: "(string \<times> string) list"

definition getDataSeriesFromSpecs ::
  "builtins \<Rightarrow> (BasicSeriesSpec list \<Rightarrow> (string \<rightharpoonup> YGroup)) \<Rightarrow> BasicSeriesSpec list \<Rightarrow>
   XYChartSeriesIdentifier list \<Rightarrow> OrderBy option \<Rightarrow> bool \<Rightarrow> SmallMultiples option \<Rightarrow>
   GlobalResult" where
  "getDataSeriesFromSpecs B groupSeriesByYGroup seriesSpecs deselectedDataSeries
       orderOrdinalBinsBy enableVislibSeriesSort smallMultiples =
     (let g = specs_loop B (groupSeriesByYGroup seriesSpecs) deselectedDataSeries
                enableVislibSeriesSort smallMultiples seriesSpecs;
          xValues =
            (if g_isOrdinalScale g \<or> \<not> g_isNumberArray g
             then getSortedOrdinalXValues (g_xValues g) (g_xValueSums g) orderOrdinalBinsBy
             else new_Set (js_sort numeric_cmp (g_xValues g)))
      in \<lparr>out_dataSeries = g_dataSeries g, out_seriesCollection = g_seriesCollection g,
          out_xValues = xValues, out_smVValues = g_smVValues g, out_smHValues = g_smHValues g,
          fallbackScale = (if \<not> g_isOrdinalScale g \<and> \<not> g_isNumberArray g then Some Ordinal
                           else None),
          out_warnings = g_warnings g\<rparr>)"

section \<open>Notions used to state the properties\<close>

text \<open>
  The rank by which \<open>getSortedDataSeriesColorsValuesMap\<close> orders an entry of a collection of
  \<open>n\<close> series: its explicit sort index, and \<open>n\<close> when it has none.
\<close>

definition sort_rank :: "nat \<Rightarrow> SeriesKey \<times> SeriesCollectionValue \<Rightarrow> rat" where
  "sort_rank n e = (case specSortIndex (snd e) of Some (Finite q) \<Rightarrow> q | _ \<Rightarrow> of_nat n)"

text \<open>The accumulated sum of an x value as a rational: \<open>0\<close> when the map has no entry.\<close>

definition sum_value :: "(prim \<rightharpoonup> jsnum) \<Rightarrow> prim \<Rightarrow> rat" where
  "sum_value xValueSums v = (case xValueSums v of Some (Finite q) \<Rightarrow> q | _ \<Rightarrow> 0)"

text \<open>
  The identifiers on which the series key is shown to be injective. A field enters the key
  by its text, the string itself or the text of the number. No text contains a closing
  brace; the text of no split accessor contains a dash, and the text of no split value a
  bar; the split accessors are the keys of a map; a panel value, when there is one, is
  truthy (not the empty string, \<open>0\<close> or \<open>NaN\<close>).
\<close>

definition plain_text :: "builtins \<Rightarrow> char set \<Rightarrow> prim \<Rightarrow> bool" where
  "plain_text B cs p = (set (prim_text B p) \<inter> cs = {})"

fun plain_panel :: "builtins \<Rightarrow> prim option \<Rightarrow> bool" where
  "plain_panel B None = True"
| "plain_panel B (Some p) = (truthy_prim (Some p) \<and> plain_text B {CHR ''}''} p)"

definition plain_fields ::
  "builtins \<Rightarrow> string \<Rightarrow> prim \<Rightarrow> (prim \<times> prim) list \<Rightarrow> prim option \<Rightarrow> prim option \<Rightarrow>
   string \<Rightarrow> bool" where
  "plain_fields B specId yAccessor splitAccessors smVerticalAccessorValue
       smHorizontalAccessorValue groupId =
     (CHR ''}'' \<notin> set specId \<and> CHR ''}'' \<notin> set groupId
      \<and> plain_text B {CHR ''}''} yAccessor
      \<and> distinct (map fst splitAccessors)
      \<and> list_all (\<lambda>e. plain_text B {CHR ''}'', CHR ''-''} (fst e)
                       \<and> plain_text B {CHR ''}'', CHR ''|''} (snd e)) splitAccessors
      \<and> plain_panel B smVerticalAccessorValue \<and> plain_panel B smHorizontalAccessorValue)"

text \<open>
  The texts of an entry of the split accessors. Two identifiers are unmixed when different
  values of the same field have different texts: the y accessors, the entries of the split
  accessors, and the panel values of either direction. A number and the string of its
  text, such as \<open>1\<close> and \<open>"1"\<close>, are different values with one text; these are the pairs
  that this excludes.
\<close>

definition entry_texts :: "builtins \<Rightarrow> prim \<times> prim \<Rightarrow> string \<times> string" where
  "entry_texts B e = (prim_text B (fst e), prim_text B (snd e))"

definition unmixed ::
  "builtins \<Rightarrow> prim \<Rightarrow> (prim \<times> prim) list \<Rightarrow> prim option \<Rightarrow> prim option \<Rightarrow>
   prim \<Rightarrow> (prim \<times> prim) list \<Rightarrow> prim option \<Rightarrow> prim option \<Rightarrow> bool" where
  "unmixed B yAccessor A smV smH yAccessor' A' smV' smH' =
     (inj_on (prim_text B) {yAccessor, yAccessor'}
      \<and> inj_on (entry_texts B) (set A \<union> set A')
      \<and> inj_on (prim_text B) (set_option smV \<union> set_option smV')
      \<and> inj_on (prim_text B) (set_option smH \<union> set_option smH'))"

text \<open>
  A \<open>string | number\<close> that is a string, and one that is a number other than \<open>NaN\<close>, with
  its value. The split accessors of a map are uniform when they are all strings or all
  such numbers: then the comparator of the sort in \<open>getSeriesKey\<close> is an order on them.
\<close>

fun is_string :: "prim \<Rightarrow> bool" where
  "is_string (PStr _) = True"
| "is_string (PNum _) = False"

fun is_finite_number :: "prim \<Rightarrow> bool" where
  "is_finite_number (PNum (Finite _)) = True"
| "is_finite_number _ = False"

fun number_value :: "prim \<Rightarrow> rat" where
  "number_value (PNum (Finite q)) = q"
| "number_value _ = 0"

definition uniform_keys :: "(prim \<times> prim) list \<Rightarrow> bool" where
  "uniform_keys A =
     (list_all (\<lambda>e. is_string (fst e)) A \<or> list_all (\<lambda>e. is_finite_number (fst e)) A)"

text \<open>The text of an entry of the split accessors inside the key.\<close>

definition entry_text :: "builtins \<Rightarrow> prim \<times> prim \<Rightarrow> string" where
  "entry_text B e = prim_text B (fst e) @ ''-'' @ prim_text B (snd e)"

section \<open>The traversal as a list of contributions\<close>

text \<open>
  What one record adds for one y accessor, as a value: the key of its series with the series
  that is created when the key is new, whose data is the one new datum. The values extracted
  from a record do not depend on the offenders found before, so they are taken from the
  extraction started with no offenders.
\<close>

definition cleaned :: "builtins \<Rightarrow> BasicSeriesSpec \<Rightarrow> jsvalue \<Rightarrow> prim \<Rightarrow> nat \<Rightarrow> CleanedDatum" where
  "cleaned B spec datum accessor index =
     fst (extractYAndMarkFromDatum B datum accessor [] (y0_at spec index)
            (spec_markSizeAccessor spec))"

definition offenders :: "builtins \<Rightarrow> BasicSeriesSpec \<Rightarrow> jsvalue \<Rightarrow> prim \<Rightarrow> nat \<Rightarrow> jsvalue list" where
  "offenders B spec datum accessor index =
     snd (extractYAndMarkFromDatum B datum accessor [] (y0_at spec index)
            (spec_markSizeAccessor spec))"

definition contribution ::
  "builtins \<Rightarrow> BasicSeriesSpec \<Rightarrow> bool \<Rightarrow> StackMode option \<Rightarrow> SmallMultiples option \<Rightarrow>
   jsvalue \<Rightarrow> prim \<Rightarrow> (prim \<times> prim) list \<Rightarrow> prim \<Rightarrow> nat \<Rightarrow> SeriesKey \<times> DataSeries" where
  "contribution B spec isStacked stackMode smallMultiples datum x splitAccessors accessor index =
     (let smH = sm_value (sm_horizontal smallMultiples) spec datum;
          smV = sm_value (sm_vertical smallMultiples) spec datum;
          c = cleaned B spec datum accessor index;
          seriesKey = getSeriesKey B (spec_id spec) accessor splitAccessors smV smH
                        (spec_groupId spec)
      in (seriesKey,
          \<lparr>s_specId = spec_id spec, s_groupId = spec_groupId spec,
           s_seriesType = spec_seriesType spec, s_yAccessor = accessor,
           s_splitAccessors = splitAccessors, s_smVerticalAccessorValue = smV,
           s_smHorizontalAccessorValue = smH, s_stackMode = stackMode,
           s_isStacked = isStacked, s_seriesKeys = map snd splitAccessors @ [accessor],
           s_key = seriesKey, s_spec = spec,
           s_data = [\<lparr>d_x = x, d_y1 = c_y1 c, d_datum = c_datum c, d_y0 = c_y0 c,
                      d_mark = c_mark c, d_initialY0 = c_initialY0 c,
                      d_initialY1 = c_initialY1 c, d_smH = smH, d_smV = smV\<rparr>]\<rparr>))"

definition contributions ::
  "builtins \<Rightarrow> BasicSeriesSpec \<Rightarrow> bool \<Rightarrow> StackMode option \<Rightarrow> SmallMultiples option \<Rightarrow>
   jsvalue \<Rightarrow> prim \<times> nat \<Rightarrow> (SeriesKey \<times> DataSeries) list" where
  "contributions B spec isStacked stackMode smallMultiples datum ai =
     (case datum_head B spec datum of
        None \<Rightarrow> []
      | Some (x, splitAccessors) \<Rightarrow>
          [contribution B spec isStacked stackMode smallMultiples datum x splitAccessors
             (fst ai) (snd ai)])"

text \<open>Adding a contribution to the map of series: append to the series of the key, or create it.\<close>

definition ds_add ::
  "SeriesKey \<times> DataSeries \<Rightarrow> (SeriesKey \<times> DataSeries) list \<Rightarrow> (SeriesKey \<times> DataSeries) list" where
  "ds_add c dataSeries =
     (case map_of dataSeries (fst c) of
        Some series \<Rightarrow>
          map_set (fst c) (series\<lparr>s_data := s_data series @ s_data (snd c)\<rparr>) dataSeries
      | None \<Rightarrow> map_set (fst c) (snd c) dataSeries)"

text \<open>The data of the series of a key; empty when the map has no such series.\<close>

definition series_data :: "SeriesKey \<Rightarrow> (SeriesKey \<times> DataSeries) list \<Rightarrow> DataSeriesDatum list" where
  "series_data k dataSeries = (case map_of dataSeries k of None \<Rightarrow> [] | Some s \<Rightarrow> s_data s)"

text \<open>
  The number and the offender that \<open>castToNumber\<close> makes of a raw value; the \<open>y1\<close> of a
  record for a y accessor, which reads the property of that name only; the
  term a record adds to the sum of its x value for a y accessor; and the addition of a term
  to the map of sums.
\<close>

definition cast_value :: "builtins \<Rightarrow> jsvalue \<Rightarrow> jsnum option" where
  "cast_value B v =
     (if v = JNull \<or> v = JUndefined \<or> isNaN (toNumber B v) then None else Some (toNumber B v))"

definition cast_offender :: "builtins \<Rightarrow> jsvalue \<Rightarrow> jsvalue list" where
  "cast_offender B v =
     (if v \<noteq> JNull \<and> v \<noteq> JUndefined \<and> isNaN (toNumber B v) then [v] else [])"

definition y1_value :: "builtins \<Rightarrow> jsvalue \<Rightarrow> prim \<Rightarrow> jsnum option" where
  "y1_value B datum accessor = cast_value B (get_prop B datum accessor)"

definition sum_terms :: "builtins \<Rightarrow> BasicSeriesSpec \<Rightarrow> jsvalue \<Rightarrow> prim \<times> nat \<Rightarrow> (prim \<times> jsnum) list" where
  "sum_terms B spec datum ai =
     (case datum_head B spec datum of
        None \<Rightarrow> []
      | Some (x, splitAccessors) \<Rightarrow> [(x, or_zero (y1_value B datum (fst ai)))])"

definition sum_add :: "prim \<times> jsnum \<Rightarrow> (prim \<rightharpoonup> jsnum) \<Rightarrow> (prim \<rightharpoonup> jsnum)" where
  "sum_add p xValueSums = xValueSums(fst p \<mapsto> sum_of xValueSums (fst p) + snd p)"

text \<open>
  The terms that a call adds to the map of sums, each with the x value whose sum it is added
  to, in the order of the additions: accessor by accessor in the legacy branch, record by
  record in the default branch.
\<close>

definition legacy_terms :: "builtins \<Rightarrow> BasicSeriesSpec \<Rightarrow> (prim \<times> jsnum) list" where
  "legacy_terms B spec =
     concat (map (\<lambda>ai. concat (map (\<lambda>d. sum_terms B spec d ai) (spec_data spec)))
       (indexed (spec_yAccessors spec)))"

definition default_terms :: "builtins \<Rightarrow> BasicSeriesSpec \<Rightarrow> (prim \<times> jsnum) list" where
  "default_terms B spec =
     concat (map (\<lambda>d. concat (map (sum_terms B spec d) (indexed (spec_yAccessors spec))))
       (spec_data spec))"

text \<open>
  What a record adds besides: its x value, its two panel values and, for a y accessor, its
  offenders; nothing when the record is skipped.
\<close>

definition head_xs :: "builtins \<Rightarrow> BasicSeriesSpec \<Rightarrow> jsvalue \<Rightarrow> prim list" where
  "head_xs B spec datum =
     (case datum_head B spec datum of None \<Rightarrow> [] | Some (x, splitAccessors) \<Rightarrow> [x])"

definition head_smV ::
  "builtins \<Rightarrow> BasicSeriesSpec \<Rightarrow> SmallMultiples option \<Rightarrow> jsvalue \<Rightarrow> prim option list" where
  "head_smV B spec smallMultiples datum =
     (case datum_head B spec datum of
        None \<Rightarrow> []
      | Some h \<Rightarrow> [sm_value (sm_vertical smallMultiples) spec datum])"

definition head_smH ::
  "builtins \<Rightarrow> BasicSeriesSpec \<Rightarrow> SmallMultiples option \<Rightarrow> jsvalue \<Rightarrow> prim option list" where
  "head_smH B spec smallMultiples datum =
     (case datum_head B spec datum of
        None \<Rightarrow> []
      | Some h \<Rightarrow> [sm_value (sm_horizontal smallMultiples) spec datum])"

definition head_offenders ::
  "builtins \<Rightarrow> BasicSeriesSpec \<Rightarrow> jsvalue \<Rightarrow> prim \<times> nat \<Rightarrow> jsvalue list" where
  "head_offenders B spec datum ai =
     (case datum_head B spec datum of
        None \<Rightarrow> []
      | Some h \<Rightarrow> offenders B spec datum (fst ai) (snd ai))"



text \<open>The x values of the records of a spec that are not skipped, in order.\<close>

definition valid_xs :: "builtins \<Rightarrow> BasicSeriesSpec \<Rightarrow> prim list" where
  "valid_xs B spec = concat (map (head_xs B spec) (spec_data spec))"


text \<open>
  The records that the per-record policy keeps: composite records with a string or a number
  as x value and, when split accessors are configured, at least one resolved split value.
\<close>

definition record_kept :: "builtins \<Rightarrow> BasicSeriesSpec \<Rightarrow> jsvalue \<Rightarrow> bool" where
  "record_kept B spec datum =
     (is_object datum
      \<and> (typeof (getAccessorValue B datum (spec_xAccessor spec)) = ''string''
         \<or> typeof (getAccessorValue B datum (spec_xAccessor spec)) = ''number'')
      \<and> (case spec_splitSeriesAccessors spec of
           None \<Rightarrow> True
         | Some as \<Rightarrow> as = [] \<or> getSplitAccessors B datum as \<noteq> []))"

text \<open>The list of x values that the splitter returns for a spec, in either branch.\<close>

definition split_xs :: "builtins \<Rightarrow> BasicSeriesSpec \<Rightarrow> bool \<Rightarrow> prim list" where
  "split_xs B spec flag =
     (if flag then concat (replicate (length (spec_yAccessors spec)) (valid_xs B spec))
      else valid_xs B spec)"


section \<open>Example inputs\<close>

text \<open>
  A conversion that agrees with \<open>Number\<close> on numbers, booleans, \<open>null\<close>, \<open>undefined\<close>, the
  empty string, and on every other string that is no numeral, such as \<open>"bad"\<close>; the texts of
  the numbers \<open>1\<close> and \<open>2\<close>; the JSON text of a string without special characters; and
  objects and arrays that inherit the one property \<open>constructor\<close>, a function.
\<close>

definition example_toNumber :: "jsvalue \<Rightarrow> jsnum" where
  "example_toNumber v =
     (case v of
        JNumber n \<Rightarrow> n
      | JBoolean b \<Rightarrow> (if b then Finite 1 else Finite 0)
      | JNull \<Rightarrow> Finite 0
      | JString s \<Rightarrow> (if s = [] then Finite 0 else NaN)
      | _ \<Rightarrow> NaN)"

definition example_numToString :: "jsnum \<Rightarrow> string" where
  "example_numToString n =
     (if n = Finite 1 then ''1'' else if n = Finite 2 then ''2'' else ''NaN'')"

definition example_jsonStringify :: "jsvalue \<Rightarrow> string" where
  "example_jsonStringify v = (case v of JString s \<Rightarrow> [CHR 0x22] @ s @ [CHR 0x22] | _ \<Rightarrow> ''null'')"

definition example_inherited :: "jsvalue \<Rightarrow> string \<Rightarrow> jsvalue" where
  "example_inherited v name =
     (if typeof v = ''object'' \<and> v \<noteq> JNull \<and> name = ''constructor'' then JFunction
      else JUndefined)"

definition example_builtins :: builtins where
  "example_builtins =
     \<lparr>toNumber = example_toNumber, numToString = example_numToString,
      jsonStringify = example_jsonStringify, inherited = example_inherited\<rparr>"

text \<open>
  The spec of the end-to-end example: id \<open>s1\<close>, x accessor \<open>x\<close>, y accessor \<open>y\<close>, and the two
  records \<open>{x: 1, y: "bad"}\<close> and \<open>{x: 2, y: 5}\<close>.
\<close>

definition example_spec :: BasicSeriesSpec where
  "example_spec =
     \<lparr>spec_id = ''s1'', spec_groupId = ''g1'', spec_seriesType = Bar,
      spec_data = [JObject [(''x'', JNumber (Finite 1)), (''y'', JString ''bad'')],
                   JObject [(''x'', JNumber (Finite 2)), (''y'', JNumber (Finite 5))]],
      spec_xAccessor = Accessor (PStr ''x''), spec_yAccessors = [PStr ''y''],
      spec_y0Accessors = None, spec_markSizeAccessor = None, spec_splitSeriesAccessors = None,
      spec_xScaleType = Linear, spec_sortIndex = None\<rparr>"

text \<open>An entry of a series collection with a given sort index.\<close>

definition example_identifier :: XYChartSeriesIdentifier where
  "example_identifier =
     \<lparr>s_specId = ''s1'', s_groupId = ''g1'', s_seriesType = Bar, s_yAccessor = PStr ''y'',
      s_splitAccessors = [], s_smVerticalAccessorValue = None,
      s_smHorizontalAccessorValue = None, s_stackMode = None, s_isStacked = False,
      s_seriesKeys = [PStr ''y''], s_key = ''k'', s_spec = example_spec\<rparr>"

definition example_entry :: "jsnum option \<Rightarrow> SeriesCollectionValue" where
  "example_entry i = \<lparr>banded = None, specSortIndex = i, seriesIdentifier = example_identifier\<rparr>"

text \<open>A spec with two y accessors, \<open>y\<close> and \<open>z\<close>, and the one record \<open>{x: "a", y: 1, z: 2}\<close>.\<close>

definition example_two :: BasicSeriesSpec where
  "example_two =
     example_spec\<lparr>spec_yAccessors := [PStr ''y'', PStr ''z''],
       spec_data := [JObject [(''x'', JString ''a''), (''y'', JNumber (Finite 1)),
                              (''z'', JNumber (Finite 2))]]\<rparr>"


text \<open>
  A spec with the two y accessors \<open>y\<close> and \<open>z\<close> and the two records
  \<open>{x: "a", y: 1, z: 2}\<close> and \<open>{x: "a", y: 3, z: 4}\<close>, on which the two branches visit
  the values in different orders.
\<close>

definition example_pair :: BasicSeriesSpec where
  "example_pair =
     example_spec\<lparr>spec_yAccessors := [PStr ''y'', PStr ''z''],
       spec_data := [JObject [(''x'', JString ''a''), (''y'', JNumber (Finite 1)),
                              (''z'', JNumber (Finite 2))],
                     JObject [(''x'', JString ''a''), (''y'', JNumber (Finite 3)),
                              (''z'', JNumber (Finite 4))]]\<rparr>"

section \<open>Facts about insertion-ordered maps\<close>

lemma map_set_fresh: "k \<notin> fst ` set m \<Longrightarrow> map_set k v m = m @ [(k, v)]"
  by (induction m) auto

lemma set_add_fresh: "x \<notin> set ys \<Longrightarrow> set_add x ys = ys @ [x]"
  by (induction ys) auto

lemma set_add_member: "x \<in> set ys \<Longrightarrow> set_add x ys = ys"
  by (induction ys) auto

lemma set_set_add: "set (set_add x ys) = insert x (set ys)"
  by (induction ys) auto

lemma distinct_set_add: "distinct ys \<Longrightarrow> distinct (set_add x ys)"
  by (induction ys) (auto simp: set_set_add)

section \<open>The sort as a stable sort by key\<close>

lemma set_js_insort: "set (js_insort cmp a bs) = insert a (set bs)"
  by (induction bs) auto

lemma set_js_sort: "set (js_sort cmp as) = set as"
  by (induction as) (simp_all add: js_sort_def set_js_insort)

lemma js_insort_insort_key:
  fixes f :: "'a \<Rightarrow> 'b::linorder"
  assumes "\<And>b. b \<in> set bs \<Longrightarrow> cmp_pos (cmp a b) = (f b < f a)"
  shows "js_insort cmp a bs = insort_key f a bs"
  using assms by (induction bs) (auto simp: not_le)

lemma js_sort_sort_key:
  fixes f :: "'a \<Rightarrow> 'b::linorder"
  assumes "\<And>a b. a \<in> set as \<Longrightarrow> b \<in> set as \<Longrightarrow> cmp_pos (cmp a b) = (f b < f a)"
  shows "js_sort cmp as = sort_key f as"
  using assms
proof (induction as)
  case Nil
  then show ?case by (simp add: js_sort_def)
next
  case (Cons a as)
  have ih: "js_sort cmp as = sort_key f as"
    using Cons by simp
  have "js_sort cmp (a # as) = js_insort cmp a (sort_key f as)"
    using ih by (simp add: js_sort_def)
  also have "\<dots> = insort_key f a (sort_key f as)"
    by (rule js_insort_insort_key) (simp add: Cons.prems)
  finally show ?case by (simp add: sort_key_def)
qed

lemma fold_map_set_distinct:
  "distinct (map fst es) \<Longrightarrow> fst ` set es \<inter> fst ` set m = {} \<Longrightarrow>
   fold (\<lambda>e m. map_set (fst e) (snd e) m) es m = m @ es"
proof (induction es arbitrary: m)
  case Nil
  then show ?case by simp
next
  case (Cons e es)
  have fresh: "fst e \<notin> fst ` set m" using Cons.prems(2) by auto
  have "fold (\<lambda>e m. map_set (fst e) (snd e) m) es (m @ [e]) = (m @ [e]) @ es"
    using Cons.prems by (intro Cons.IH) auto
  then show ?case
    using fresh by (simp add: map_set_fresh)
qed

lemma new_Map_distinct: "distinct (map fst es) \<Longrightarrow> new_Map es = es"
  by (simp add: new_Map_def fold_map_set_distinct)

lemma fold_set_add_distinct:
  "distinct as \<Longrightarrow> set as \<inter> set bs = {} \<Longrightarrow> fold set_add as bs = bs @ as"
proof (induction as arbitrary: bs)
  case Nil
  then show ?case by simp
next
  case (Cons a as)
  have "fold set_add as (bs @ [a]) = (bs @ [a]) @ as"
    using Cons.prems by (intro Cons.IH) auto
  then show ?case
    using Cons.prems by (simp add: set_add_fresh)
qed

lemma new_Set_distinct: "distinct as \<Longrightarrow> new_Set as = as"
  by (simp add: new_Set_def fold_set_add_distinct)

lemma set_fold_set_add: "set (fold set_add as bs) = set as \<union> set bs"
  by (induction as arbitrary: bs) (auto simp: set_set_add)

lemma distinct_fold_set_add: "distinct bs \<Longrightarrow> distinct (fold set_add as bs)"
  by (induction as arbitrary: bs) (auto simp: distinct_set_add)

lemma set_new_Set: "set (new_Set as) = set as"
  by (simp add: new_Set_def set_fold_set_add)

section \<open>Strings and their separators\<close>

lemma split_at_char:
  assumes "c \<notin> set a" "c \<notin> set a'" "a @ c # r = a' @ c # r'"
  shows "a = a' \<and> r = r'"
  using assms
proof (induction a arbitrary: a')
  case Nil
  then show ?case by (cases a') auto
next
  case (Cons h a)
  then show ?case by (cases a') auto
qed

lemma join_Cons: "join sep (s # ss) = s @ (if ss = [] then [] else sep @ join sep ss)"
  by (cases ss) simp_all

lemma join_entries_inject:
  assumes "\<And>p. p \<in> set ps \<Longrightarrow> c \<notin> set (fst p) \<and> b \<notin> set (snd p)"
    and "\<And>q. q \<in> set qs \<Longrightarrow> c \<notin> set (fst q) \<and> b \<notin> set (snd q)"
    and "join [b] (map (\<lambda>p. fst p @ c # snd p) ps) = join [b] (map (\<lambda>p. fst p @ c # snd p) qs)"
  shows "ps = qs"
  using assms
proof (induction ps arbitrary: qs)
  case Nil
  then show ?case
    by (cases qs) (auto simp: join_Cons)
next
  case (Cons p ps)
  let ?t = "\<lambda>p. fst p @ c # snd p"
  show ?case
  proof (cases qs)
    case Nil
    then show ?thesis using Cons.prems by (auto simp: join_Cons)
  next
    case (Cons q qs')
    have p: "c \<notin> set (fst p)" "b \<notin> set (snd p)" and q: "c \<notin> set (fst q)" "b \<notin> set (snd q)"
      using Cons.prems(1)[of p] Cons.prems(2)[of q] Cons by auto
    have "join [b] (?t p # map ?t ps) = join [b] (?t q # map ?t qs')"
      using Cons.prems(3) Cons by simp
    then have "?t p @ (if map ?t ps = [] then [] else [b] @ join [b] (map ?t ps))
             = ?t q @ (if map ?t qs' = [] then [] else [b] @ join [b] (map ?t qs'))"
      by (simp only: join_Cons)
    then have "fst p @ c # (snd p @ (if ps = [] then [] else b # join [b] (map ?t ps)))
             = fst q @ c # (snd q @ (if qs' = [] then [] else b # join [b] (map ?t qs')))"
      by (simp only: map_is_Nil_conv append_assoc append_Cons append_Nil)
    from split_at_char[OF p(1) q(1) this]
    have k: "fst p = fst q"
      and eq: "snd p @ (if ps = [] then [] else b # join [b] (map ?t ps))
             = snd q @ (if qs' = [] then [] else b # join [b] (map ?t qs'))"
      by simp_all
    have "snd p = snd q \<and> (ps = [] \<longleftrightarrow> qs' = [])
        \<and> (ps \<noteq> [] \<longrightarrow> join [b] (map ?t ps) = join [b] (map ?t qs'))"
    proof (cases "ps = []"; cases "qs' = []")
      assume "ps = []" "qs' = []"
      then show ?thesis using eq by simp
    next
      assume "ps = []" "qs' \<noteq> []"
      then have "snd p = snd q @ b # join [b] (map ?t qs')" using eq by simp
      then show ?thesis using p by auto
    next
      assume "ps \<noteq> []" "qs' = []"
      then have "snd q = snd p @ b # join [b] (map ?t ps)" using eq by simp
      then show ?thesis using q by auto
    next
      assume "ps \<noteq> []" "qs' \<noteq> []"
      then have "snd p @ b # join [b] (map ?t ps) = snd q @ b # join [b] (map ?t qs')"
        using eq by simp
      from split_at_char[OF p(2) q(2) this] \<open>ps \<noteq> []\<close> \<open>qs' \<noteq> []\<close> show ?thesis by simp
    qed
    moreover have "ps = qs'"
    proof (cases "ps = []")
      case True
      then show ?thesis using calculation by simp
    next
      case False
      then have "join [b] (map ?t ps) = join [b] (map ?t qs')" using calculation by simp
      then show ?thesis
        using Cons.prems(1,2) Cons by (intro Cons.IH) auto
    qed
    ultimately show ?thesis using Cons k by (simp add: prod_eq_iff)
  qed
qed
section \<open>The two traversals in closed form\<close>

lemma castToNumber_eq:
  "castToNumber B v nn = (cast_value B v, nn @ cast_offender B v)"
  by (simp add: castToNumber_def cast_value_def cast_offender_def Let_def)

lemma extract_nn:
  "extractYAndMarkFromDatum B datum a nn y0a ma =
     (fst (extractYAndMarkFromDatum B datum a [] y0a ma),
      nn @ snd (extractYAndMarkFromDatum B datum a [] y0a ma))"
  by (cases ma; cases y0a)
     (simp_all add: extractYAndMarkFromDatum_def castToNumber_eq)

lemma cleaned_y1: "c_y1 (cleaned B spec datum accessor index) = y1_value B datum accessor"
  by (cases "spec_markSizeAccessor spec"; cases "y0_at spec index")
     (simp_all add: cleaned_def extractYAndMarkFromDatum_def y1_value_def castToNumber_eq)

lemma series_step_eq:
  "series_step B spec isStacked stackMode datum x sa
     (sm_value (sm_horizontal smallMultiples) spec datum)
     (sm_value (sm_vertical smallMultiples) spec datum) accessor index ds nn =
   (ds_add (contribution B spec isStacked stackMode smallMultiples datum x sa accessor index) ds,
    nn @ offenders B spec datum accessor index,
    y1_value B datum accessor)"
  apply (subst cleaned_y1[symmetric, of B datum accessor spec index])
  apply (simp add: series_step_def)
  apply (subst extract_nn)
  apply (simp add: Let_def ds_add_def contribution_def cleaned_def offenders_def split: option.split)
  done

lemma legacy_datum_step_eq:
  "legacy_datum_step B spec isStacked stackMode smallMultiples a i datum st =
     \<lparr>st_dataSeries =
        fold ds_add (contributions B spec isStacked stackMode smallMultiples datum (a, i))
          (st_dataSeries st),
      st_xValues = st_xValues st @ head_xs B spec datum,
      st_smVValues = fold add_sm (head_smV B spec smallMultiples datum) (st_smVValues st),
      st_smHValues = fold add_sm (head_smH B spec smallMultiples datum) (st_smHValues st),
      st_nonNumericValues = st_nonNumericValues st @ head_offenders B spec datum (a, i),
      st_xValueSums = fold sum_add (sum_terms B spec datum (a, i)) (st_xValueSums st)\<rparr>"
proof (cases "datum_head B spec datum")
  case None
  then show ?thesis
    by (simp add: legacy_datum_step_def contributions_def head_xs_def head_smV_def head_smH_def
        head_offenders_def sum_terms_def)
next
  case (Some h)
  obtain x sa where h: "h = (x, sa)" by (cases h)
  show ?thesis
    using Some h
    by (simp add: legacy_datum_step_def contributions_def head_xs_def head_smV_def head_smH_def
        head_offenders_def sum_terms_def series_step_eq sum_add_def)
qed

lemma fold_legacy_datum_step:
  "fold (legacy_datum_step B spec isStacked stackMode smallMultiples a i) data st =
     \<lparr>st_dataSeries =
        fold ds_add
          (concat (map (\<lambda>d. contributions B spec isStacked stackMode smallMultiples d (a, i)) data))
          (st_dataSeries st),
      st_xValues = st_xValues st @ concat (map (head_xs B spec) data),
      st_smVValues = fold add_sm (concat (map (head_smV B spec smallMultiples) data)) (st_smVValues st),
      st_smHValues = fold add_sm (concat (map (head_smH B spec smallMultiples) data)) (st_smHValues st),
      st_nonNumericValues =
        st_nonNumericValues st @ concat (map (\<lambda>d. head_offenders B spec d (a, i)) data),
      st_xValueSums =
        fold sum_add (concat (map (\<lambda>d. sum_terms B spec d (a, i)) data)) (st_xValueSums st)\<rparr>"
proof (induction data arbitrary: st)
  case Nil
  show ?case by simp
next
  case (Cons d data)
  show ?case
    by (simp only: fold_simps comp_apply Cons.IH) (simp add: legacy_datum_step_eq)
qed

lemma fold_legacy:
  "fold (\<lambda>ai st. fold (legacy_datum_step B spec isStacked stackMode smallMultiples (fst ai) (snd ai))
                    data st) ais st =
     \<lparr>st_dataSeries =
        fold ds_add
          (concat (map (\<lambda>ai. concat (map (\<lambda>d.
              contributions B spec isStacked stackMode smallMultiples d ai) data)) ais))
          (st_dataSeries st),
      st_xValues = st_xValues st @ concat (map (\<lambda>ai. concat (map (head_xs B spec) data)) ais),
      st_smVValues =
        fold add_sm (concat (map (\<lambda>ai. concat (map (head_smV B spec smallMultiples) data)) ais))
          (st_smVValues st),
      st_smHValues =
        fold add_sm (concat (map (\<lambda>ai. concat (map (head_smH B spec smallMultiples) data)) ais))
          (st_smHValues st),
      st_nonNumericValues =
        st_nonNumericValues st
          @ concat (map (\<lambda>ai. concat (map (\<lambda>d. head_offenders B spec d ai) data)) ais),
      st_xValueSums =
        fold sum_add (concat (map (\<lambda>ai. concat (map (\<lambda>d. sum_terms B spec d ai) data)) ais))
          (st_xValueSums st)\<rparr>"
proof (induction ais arbitrary: st)
  case Nil
  show ?case by simp
next
  case (Cons ai ais)
  show ?case
    by (simp only: fold_simps comp_apply Cons.IH) (simp add: fold_legacy_datum_step)
qed

lemma fold_accessor_step:
  "fold (accessor_step B spec isStacked stackMode datum x sa
           (sm_value (sm_horizontal smallMultiples) spec datum)
           (sm_value (sm_vertical smallMultiples) spec datum))
     ais (ds, nn, acc, sum_of acc x) =
   (fold ds_add
      (map (\<lambda>ai. contribution B spec isStacked stackMode smallMultiples datum x sa (fst ai) (snd ai))
         ais) ds,
    nn @ concat (map (\<lambda>ai. offenders B spec datum (fst ai) (snd ai)) ais),
    fold sum_add (map (\<lambda>ai. (x, or_zero (y1_value B datum (fst ai)))) ais) acc,
    sum_of (fold sum_add (map (\<lambda>ai. (x, or_zero (y1_value B datum (fst ai)))) ais) acc) x)"
proof (induction ais arbitrary: ds nn acc)
  case Nil
  show ?case by simp
next
  case (Cons ai ais)
  have step: "accessor_step B spec isStacked stackMode datum x sa
           (sm_value (sm_horizontal smallMultiples) spec datum)
           (sm_value (sm_vertical smallMultiples) spec datum) ai (ds, nn, acc, sum_of acc x)
     = (ds_add (contribution B spec isStacked stackMode smallMultiples datum x sa (fst ai) (snd ai)) ds,
        nn @ offenders B spec datum (fst ai) (snd ai),
        sum_add (x, or_zero (y1_value B datum (fst ai))) acc,
        sum_of (sum_add (x, or_zero (y1_value B datum (fst ai))) acc) x)"
    by (simp add: accessor_step_def series_step_eq sum_add_def Let_def)
       (simp add: sum_of_def)
  show ?case
    by (simp only: fold_simps comp_apply step Cons.IH) simp
qed

lemma default_datum_step_eq:
  "default_datum_step B spec isStacked stackMode smallMultiples datum st =
     \<lparr>st_dataSeries =
        fold ds_add
          (concat (map (contributions B spec isStacked stackMode smallMultiples datum)
             (indexed (spec_yAccessors spec))))
          (st_dataSeries st),
      st_xValues = st_xValues st @ head_xs B spec datum,
      st_smVValues = fold add_sm (head_smV B spec smallMultiples datum) (st_smVValues st),
      st_smHValues = fold add_sm (head_smH B spec smallMultiples datum) (st_smHValues st),
      st_nonNumericValues =
        st_nonNumericValues st
          @ concat (map (head_offenders B spec datum) (indexed (spec_yAccessors spec))),
      st_xValueSums =
        fold sum_add (concat (map (sum_terms B spec datum) (indexed (spec_yAccessors spec))))
          (st_xValueSums st)\<rparr>"
proof (cases "datum_head B spec datum")
  case None
  have e: "concat (map (contributions B spec isStacked stackMode smallMultiples datum) ais) = []"
    "concat (map (head_offenders B spec datum) ais) = []"
    "concat (map (sum_terms B spec datum) ais) = []" for ais
    using None by (simp_all add: contributions_def head_offenders_def sum_terms_def)
  show ?thesis
    using None by (simp add: default_datum_step_def e head_xs_def head_smV_def head_smH_def)
next
  case (Some h)
  obtain x sa where h: "h = (x, sa)" by (cases h)
  have c: "concat (map (contributions B spec isStacked stackMode smallMultiples datum) ais)
         = map (\<lambda>ai. contribution B spec isStacked stackMode smallMultiples datum x sa (fst ai) (snd ai)) ais"
    for ais
    using Some h by (induction ais) (simp_all add: contributions_def)
  have t: "concat (map (sum_terms B spec datum) ais)
         = map (\<lambda>ai. (x, or_zero (y1_value B datum (fst ai)))) ais" for ais
    using Some h by (induction ais) (simp_all add: sum_terms_def)
  have ho: "map (head_offenders B spec datum) ais = map (\<lambda>ai. offenders B spec datum (fst ai) (snd ai)) ais"
    for ais
    using Some h by (simp add: head_offenders_def)
  show ?thesis
    using Some h
    by (simp add: default_datum_step_def fold_accessor_step c t ho head_xs_def head_smV_def
        head_smH_def)
qed

lemma fold_default:
  "fold (default_datum_step B spec isStacked stackMode smallMultiples) data st =
     \<lparr>st_dataSeries =
        fold ds_add
          (concat (map (\<lambda>d. concat (map (contributions B spec isStacked stackMode smallMultiples d)
             (indexed (spec_yAccessors spec)))) data))
          (st_dataSeries st),
      st_xValues = st_xValues st @ concat (map (head_xs B spec) data),
      st_smVValues = fold add_sm (concat (map (head_smV B spec smallMultiples) data)) (st_smVValues st),
      st_smHValues = fold add_sm (concat (map (head_smH B spec smallMultiples) data)) (st_smHValues st),
      st_nonNumericValues =
        st_nonNumericValues st
          @ concat (map (\<lambda>d. concat (map (head_offenders B spec d) (indexed (spec_yAccessors spec))))
              data),
      st_xValueSums =
        fold sum_add
          (concat (map (\<lambda>d. concat (map (sum_terms B spec d) (indexed (spec_yAccessors spec)))) data))
          (st_xValueSums st)\<rparr>"
proof (induction data arbitrary: st)
  case Nil
  show ?case by simp
next
  case (Cons d data)
  show ?case
    by (simp only: fold_simps comp_apply Cons.IH) (simp add: default_datum_step_eq)
qed

lemma map_of_map_set: "map_of (map_set k v m) = (map_of m)(k \<mapsto> v)"
  by (induction m) (auto simp: fun_eq_iff)

lemma keys_map_set: "fst ` set (map_set k v m) = insert k (fst ` set m)"
  by (induction m) auto

lemma distinct_map_set: "distinct (map fst m) \<Longrightarrow> distinct (map fst (map_set k v m))"
proof (induction m)
  case Nil
  show ?case by simp
next
  case (Cons e m)
  have "fst ` set (map_set k v m) = insert k (fst ` set m)"
    by (rule keys_map_set)
  then show ?case using Cons by auto
qed

lemma keys_ds_add: "fst ` set (ds_add c ds) = insert (fst c) (fst ` set ds)"
  by (simp add: ds_add_def keys_map_set split: option.split)

lemma distinct_ds_add: "distinct (map fst ds) \<Longrightarrow> distinct (map fst (ds_add c ds))"
  by (simp add: ds_add_def distinct_map_set split: option.split)

lemma series_data_ds_add:
  "series_data k (ds_add c ds) = series_data k ds @ (if fst c = k then s_data (snd c) else [])"
  by (simp add: series_data_def ds_add_def map_of_map_set split: option.split)

lemma keys_fold_ds_add: "fst ` set (fold ds_add cs ds) = fst ` set cs \<union> fst ` set ds"
  by (induction cs arbitrary: ds) (auto simp: keys_ds_add)

lemma distinct_fold_ds_add: "distinct (map fst ds) \<Longrightarrow> distinct (map fst (fold ds_add cs ds))"
  by (induction cs arbitrary: ds) (simp_all add: distinct_ds_add)

lemma series_data_fold_ds_add:
  "series_data k (fold ds_add cs ds) =
     series_data k ds @ concat (map (\<lambda>c. s_data (snd c)) (filter (\<lambda>c. fst c = k) cs))"
  by (induction cs arbitrary: ds) (simp_all add: series_data_ds_add)

lemma mset_concat_append_map:
  "mset (concat (map (\<lambda>d. g d @ h d) ds)) = mset (concat (map g ds)) + mset (concat (map h ds))"
  by (induction ds) simp_all

lemma mset_loop_interchange:
  "mset (concat (map (\<lambda>a. concat (map (\<lambda>d. f d a) ds)) as))
   = mset (concat (map (\<lambda>d. concat (map (f d) as)) ds))"
proof (induction as)
  case Nil
  show ?case by (induction ds) simp_all
next
  case (Cons a as)
  have "mset (concat (map (\<lambda>d. concat (map (f d) (a # as))) ds))
      = mset (concat (map (\<lambda>d. f d a @ concat (map (f d) as)) ds))"
    by simp
  also have "\<dots> = mset (concat (map (\<lambda>d. f d a) ds)) + mset (concat (map (\<lambda>d. concat (map (f d) as)) ds))"
    by (rule mset_concat_append_map)
  finally show ?case
    using Cons by simp
qed

lemma mset_concat_map_filter_cong:
  assumes "mset cs = mset cs'"
  shows "mset (concat (map g (filter P cs))) = mset (concat (map g (filter P cs')))"
proof -
  have "mset (concat (map g (filter P zs))) = (\<Sum>z \<in># filter_mset P (mset zs). mset (g z))" for zs
    by (induction zs) simp_all
  then show ?thesis using assms by simp
qed



lemma length_indexed: "length (indexed as) = length as"
  by (simp add: indexed_def)

lemma traverse_legacy:
  "split_traverse B spec acc isStacked True stackMode smallMultiples =
     \<lparr>st_dataSeries =
        fold ds_add
          (concat (map (\<lambda>ai. concat (map (\<lambda>d.
              contributions B spec isStacked stackMode smallMultiples d ai) (spec_data spec)))
            (indexed (spec_yAccessors spec)))) [],
      st_xValues = concat (replicate (length (spec_yAccessors spec)) (valid_xs B spec)),
      st_smVValues =
        fold add_sm (concat (replicate (length (spec_yAccessors spec))
          (concat (map (head_smV B spec smallMultiples) (spec_data spec))))) [],
      st_smHValues =
        fold add_sm (concat (replicate (length (spec_yAccessors spec))
          (concat (map (head_smH B spec smallMultiples) (spec_data spec))))) [],
      st_nonNumericValues =
        concat (map (\<lambda>ai. concat (map (\<lambda>d. head_offenders B spec d ai) (spec_data spec)))
          (indexed (spec_yAccessors spec))),
      st_xValueSums =
        fold sum_add
          (concat (map (\<lambda>ai. concat (map (\<lambda>d. sum_terms B spec d ai) (spec_data spec)))
            (indexed (spec_yAccessors spec)))) acc\<rparr>"
  by (simp add: split_traverse_def fold_legacy valid_xs_def map_replicate_const length_indexed)

lemma traverse_default:
  "split_traverse B spec acc isStacked False stackMode smallMultiples =
     \<lparr>st_dataSeries =
        fold ds_add
          (concat (map (\<lambda>d. concat (map (contributions B spec isStacked stackMode smallMultiples d)
             (indexed (spec_yAccessors spec)))) (spec_data spec))) [],
      st_xValues = valid_xs B spec,
      st_smVValues = fold add_sm (concat (map (head_smV B spec smallMultiples) (spec_data spec))) [],
      st_smHValues = fold add_sm (concat (map (head_smH B spec smallMultiples) (spec_data spec))) [],
      st_nonNumericValues =
        concat (map (\<lambda>d. concat (map (head_offenders B spec d) (indexed (spec_yAccessors spec))))
          (spec_data spec)),
      st_xValueSums =
        fold sum_add
          (concat (map (\<lambda>d. concat (map (sum_terms B spec d) (indexed (spec_yAccessors spec))))
            (spec_data spec))) acc\<rparr>"
  by (simp add: split_traverse_def fold_default valid_xs_def)

lemma set_add_sm: "set (add_sm v s) = set s \<union> set_option v"
  by (cases v) (simp_all add: add_sm_def set_set_add)

lemma fold_add_sm_members:
  "(\<And>p. Some p \<in> set hs \<Longrightarrow> p \<in> set s) \<Longrightarrow> fold add_sm hs s = s"
proof (induction hs arbitrary: s)
  case Nil
  show ?case by simp
next
  case (Cons h hs)
  have "add_sm h s = s"
    using Cons.prems[of "the h"] by (cases h) (simp_all add: add_sm_def set_add_member)
  then show ?case using Cons by simp
qed

lemma set_fold_add_sm: "set (fold add_sm hs s) = set s \<union> {p. Some p \<in> set hs}"
  by (induction hs arbitrary: s) (auto simp: set_add_sm elim: option.set_cases)

lemma fold_add_sm_replicate:
  "fold add_sm (concat (replicate n hs)) [] = (if n = 0 then [] else fold add_sm hs [])"
proof (induction n)
  case 0
  show ?case by simp
next
  case (Suc n)
  have r: "replicate (Suc n) hs = replicate n hs @ [hs]"
    by (simp add: replicate_append_same)
  have "fold add_sm (concat (replicate (Suc n) hs)) []
      = fold add_sm hs (fold add_sm (concat (replicate n hs)) [])"
    by (simp only: r concat_append fold_append comp_apply) simp
  also have "\<dots> = fold add_sm hs []"
  proof (cases "n = 0")
    case True
    then show ?thesis by simp
  next
    case False
    then have "fold add_sm (concat (replicate n hs)) [] = fold add_sm hs []"
      using Suc by simp
    moreover have "fold add_sm hs (fold add_sm hs []) = fold add_sm hs []"
      by (rule fold_add_sm_members) (simp add: set_fold_add_sm)
    ultimately show ?thesis by simp
  qed
  finally show ?case by simp
qed


lemma datum_head_kept: "(datum_head B spec datum \<noteq> None) = record_kept B spec datum"
proof -
  have x: "(case v of JString s \<Rightarrow> Some (PStr s, sa) | JNumber n \<Rightarrow> Some (PNum n, sa) | _ \<Rightarrow> None) \<noteq> None
      \<longleftrightarrow> typeof v = ''string'' \<or> typeof v = ''number''" for v :: jsvalue and sa :: "(prim \<times> prim) list"
    by (cases v) simp_all
  show ?thesis
    unfolding datum_head_def record_kept_def is_object_def Let_def
    using x[where v="getAccessorValue B datum (spec_xAccessor spec)"]
    by (cases "spec_splitSeriesAccessors spec") auto
qed

section \<open>Color resolution: the closed form of the loop\<close>

lemma fold_series_color_step:
  "distinct (map fst sc) \<Longrightarrow> fst ` set sc \<inter> fst ` set m = {} \<Longrightarrow>
   fold (series_color_step cc cu ov) sc (m, c) =
     (m @ map (\<lambda>(i, e). (fst e, color_at cc cu ov i (fst e))) (zip [c ..< c + length sc] sc),
      c + length sc)"
proof (induction sc arbitrary: m c)
  case Nil
  then show ?case by simp
next
  case (Cons e sc)
  have fresh: "fst e \<notin> fst ` set m" using Cons.prems(2) by auto
  have step: "series_color_step cc cu ov e (m, c) = (m @ [(fst e, color_at cc cu ov c (fst e))], Suc c)"
    using fresh by (simp add: series_color_step_def Let_def color_at_def map_set_fresh)
  have d: "distinct (map fst sc)" using Cons.prems(1) by simp
  have disj: "fst ` set sc \<inter> fst ` set (m @ [(fst e, color_at cc cu ov c (fst e))]) = {}"
    using Cons.prems by auto
  have up: "[c ..< c + length (e # sc)] = c # [Suc c ..< Suc c + length sc]"
    by (simp add: upt_rec)
  show ?case
    unfolding fold_simps step Cons.IH[OF d disj] up by simp
qed

lemma getSeriesColors_eq:
  "distinct (map fst sc) \<Longrightarrow>
   getSeriesColors sc cc cu ov =
     map (\<lambda>(i, e). (fst e, color_at cc cu ov i (fst e))) (zip [0 ..< length sc] sc)"
  using fold_series_color_step[of sc "[]" cc cu ov 0] by (simp add: getSeriesColors_def)

lemma getSeriesColors_keys:
  "distinct (map fst sc) \<Longrightarrow> map fst (getSeriesColors sc cc cu ov) = map fst sc"
proof -
  assume d: "distinct (map fst sc)"
  have "map (\<lambda>x. fst (snd x)) (zip [0 ..< length sc] sc) = map fst sc"
    by (rule nth_equalityI) simp_all
  then show ?thesis
    using d by (simp add: getSeriesColors_eq comp_def case_prod_unfold)
qed

lemma getSeriesColors_nth:
  assumes "distinct (map fst sc)" "i < length sc"
  shows "getSeriesColors sc cc cu ov ! i = (fst (sc ! i), color_at cc cu ov i (fst (sc ! i)))"
  using assms by (simp add: getSeriesColors_eq)

lemma getSeriesColors_get:
  assumes "distinct (map fst sc)" "i < length sc"
  shows "map_of (getSeriesColors sc cc cu ov) (fst (sc ! i)) = Some (color_at cc cu ov i (fst (sc ! i)))"
proof -
  have d: "distinct (map fst (getSeriesColors sc cc cu ov))"
    using assms(1) by (simp add: getSeriesColors_keys)
  have len: "length (getSeriesColors sc cc cu ov) = length sc"
    using assms(1) by (simp add: getSeriesColors_eq)
  have "getSeriesColors sc cc cu ov ! i \<in> set (getSeriesColors sc cc cu ov)"
    using assms(2) len by simp
  then show ?thesis
    using d getSeriesColors_nth[OF assms] by (metis map_of_is_SomeI)
qed

text \<open>
  Claim C4, as amended. For a key at position \<open>i\<close> of a series collection,
  \<open>getSeriesColors\<close> resolves the first entry that is defined and not the empty string among
  the temporary override, the per-series custom color and the persisted override, in this
  order, and the palette color of position \<open>i\<close> when there is none. In particular a key with
  a non-empty custom color and no non-empty temporary override resolves the custom color,
  whatever the persisted override is. An entry that is the empty string counts as absent.
\<close>

theorem getSeriesColors_precedence:
  assumes "distinct (map fst seriesCollection)" and "i < length seriesCollection"
    and "key = fst (seriesCollection ! i)"
  shows "map_of (getSeriesColors seriesCollection chartColors customColors overrides) key =
     Some (if truthy_color (temporary overrides key) then temporary overrides key
           else if truthy_color (customColors key) then customColors key
           else if truthy_color (persisted overrides key) then persisted overrides key
           else palette_at chartColors i)"
  using getSeriesColors_get[OF assms(1,2), of chartColors customColors overrides] assms(3)
  by (simp add: color_at_def getHighestOverride_def Let_def)

theorem getSeriesColors_precedence_witness:
  "distinct (map fst [(''k'', ())]) \<and>
   map_of (getSeriesColors [(''k'', ())] \<lparr>vizColors = [''blue'']\<rparr> [''k'' \<mapsto> ''green'']
      \<lparr>temporary = Map.empty, persisted = [''k'' \<mapsto> ''red'']\<rparr>) ''k'' = Some (Some ''green'')"
  using getSeriesColors_precedence[of "[(''k'', ())]" 0 "''k''" "\<lparr>vizColors = [''blue'']\<rparr>"
      "[''k'' \<mapsto> ''green'']" "\<lparr>temporary = Map.empty, persisted = [''k'' \<mapsto> ''red'']\<rparr>"]
  by simp

text \<open>
  The claim as stated fails when the custom color of the key is the empty string: the key is
  present in the custom-color map and in the persisted overrides, absent from the temporary
  ones, and the persisted color is resolved.
\<close>

theorem getSeriesColors_empty_custom_counterexample:
  "[''k'' \<mapsto> ''''] ''k'' = Some '''' \<and>
   persisted \<lparr>temporary = Map.empty, persisted = [''k'' \<mapsto> ''red'']\<rparr> ''k'' = Some ''red'' \<and>
   temporary \<lparr>temporary = Map.empty, persisted = [''k'' \<mapsto> ''red'']\<rparr> ''k'' = None \<and>
   map_of (getSeriesColors [(''k'', ())] \<lparr>vizColors = [''blue'']\<rparr> [''k'' \<mapsto> '''']
      \<lparr>temporary = Map.empty, persisted = [''k'' \<mapsto> ''red'']\<rparr>) ''k'' = Some (Some ''red'') \<and>
   Some ''red'' \<noteq> [''k'' \<mapsto> ''''] ''k''"
  by (simp add: getSeriesColors_def series_color_step_def getHighestOverride_def)

text \<open>
  Claim C10. The returned map has exactly the keys of the collection, in its order, and a
  series at position \<open>i\<close> with no applicable override receives the palette color at index
  \<open>i mod length vizColors\<close> (\<open>undefined\<close> on an empty palette): the cursor counts every
  series, overridden or not.
\<close>

theorem getSeriesColors_palette_cursor:
  assumes "distinct (map fst seriesCollection)"
  shows "map fst (getSeriesColors seriesCollection chartColors customColors overrides) =
           map fst seriesCollection \<and>
         (\<forall>i < length seriesCollection.
            \<not> truthy_color (getHighestOverride (fst (seriesCollection ! i)) customColors overrides) \<longrightarrow>
            map_of (getSeriesColors seriesCollection chartColors customColors overrides)
                (fst (seriesCollection ! i)) =
              Some (if vizColors chartColors = [] then None
                    else Some (vizColors chartColors ! (i mod length (vizColors chartColors)))))"
  using getSeriesColors_keys[OF assms] getSeriesColors_get[OF assms]
  by (simp add: color_at_def palette_at_def)

theorem getSeriesColors_palette_cursor_witness:
  "distinct (map fst [(''a'', ()), (''b'', ()), (''c'', ())]) \<and>
   map fst (getSeriesColors [(''a'', ()), (''b'', ()), (''c'', ())] \<lparr>vizColors = [''red'', ''green'']\<rparr>
      Map.empty \<lparr>temporary = [''a'' \<mapsto> ''black''], persisted = Map.empty\<rparr>) = [''a'', ''b'', ''c''] \<and>
   map_of (getSeriesColors [(''a'', ()), (''b'', ()), (''c'', ())] \<lparr>vizColors = [''red'', ''green'']\<rparr>
      Map.empty \<lparr>temporary = [''a'' \<mapsto> ''black''], persisted = Map.empty\<rparr>) ''b'' = Some (Some ''green'') \<and>
   map_of (getSeriesColors [(''a'', ()), (''b'', ()), (''c'', ())] \<lparr>vizColors = [''red'', ''green'']\<rparr>
      Map.empty \<lparr>temporary = [''a'' \<mapsto> ''black''], persisted = Map.empty\<rparr>) ''c'' = Some (Some ''red'')"
proof -
  let ?sc = "[(''a'', ()), (''b'', ()), (''c'', ())]"
  let ?cc = "\<lparr>vizColors = [''red'', ''green'']\<rparr>"
  let ?ov = "\<lparr>temporary = [''a'' \<mapsto> ''black''], persisted = Map.empty\<rparr>"
  have d: "distinct (map fst ?sc)" by simp
  note t = getSeriesColors_palette_cursor[OF d, of ?cc Map.empty ?ov]
  from t have keys: "map fst (getSeriesColors ?sc ?cc Map.empty ?ov) = [''a'', ''b'', ''c'']"
    by simp
  from t have "(1::nat) < length ?sc \<longrightarrow>
      \<not> truthy_color (getHighestOverride (fst (?sc ! 1)) Map.empty ?ov) \<longrightarrow>
      map_of (getSeriesColors ?sc ?cc Map.empty ?ov) (fst (?sc ! 1)) =
        Some (if vizColors ?cc = [] then None else Some (vizColors ?cc ! (1 mod length (vizColors ?cc))))"
    by blast
  then have b: "map_of (getSeriesColors ?sc ?cc Map.empty ?ov) ''b'' = Some (Some ''green'')"
    by (simp add: getHighestOverride_def)
  from t have "(2::nat) < length ?sc \<longrightarrow>
      \<not> truthy_color (getHighestOverride (fst (?sc ! 2)) Map.empty ?ov) \<longrightarrow>
      map_of (getSeriesColors ?sc ?cc Map.empty ?ov) (fst (?sc ! 2)) =
        Some (if vizColors ?cc = [] then None else Some (vizColors ?cc ! (2 mod length (vizColors ?cc))))"
    by blast
  then have c: "map_of (getSeriesColors ?sc ?cc Map.empty ?ov) ''c'' = Some (Some ''red'')"
    by (simp add: getHighestOverride_def numeral_2_eq_2)
  show ?thesis using d keys b c by simp
qed

section \<open>The sort index\<close>

text \<open>
  What the code computes: in a collection of \<open>n\<close> series with distinct keys, a series with
  no explicit sort index is given the index \<open>n\<close>, and the result is the stable sort of the
  entries by index.
\<close>

lemma getSorted_eq_sort_key:
  assumes d: "distinct (map fst sc)"
    and fin: "\<And>e. e \<in> set sc \<Longrightarrow> specSortIndex (snd e) \<noteq> Some NaN"
  shows "getSortedDataSeriesColorsValuesMap sc = sort_key (sort_rank (length sc)) sc"
proof -
  let ?cmp = "\<lambda>specA specB. num_sub (getSortIndex (snd specA) (size_num sc))
                                      (getSortIndex (snd specB) (size_num sc))"
  have idx: "getSortIndex (snd e) (size_num sc) = Finite (sort_rank (length sc) e)"
    if "e \<in> set sc" for e
    using fin[OF that]
    by (auto simp: getSortIndex_def sort_rank_def size_num_def split: option.splits jsnum.splits)
  have "js_sort ?cmp sc = sort_key (sort_rank (length sc)) sc"
    by (rule js_sort_sort_key) (simp add: idx)
  moreover have "distinct (map fst (sort_key (sort_rank (length sc)) sc))"
    using d by (metis distinct_map distinct_sort set_sort inj_on_cong)
  ultimately show ?thesis
    by (simp add: getSortedDataSeriesColorsValuesMap_def new_Map_distinct)
qed

text \<open>
  Claim C8: every series with no explicit sort index is placed after every series that has
  one. The code departs from it: \<open>getSortIndex\<close> gives a series with no explicit index the
  size of the collection, not a value beyond every index. In the collection of the two
  series \<open>a\<close>, with the explicit index 5, and \<open>b\<close>, with none, \<open>b\<close> is ranked 2 and the
  result places it before \<open>a\<close>.
\<close>

theorem getSortedDataSeriesColorsValuesMap_unindexed_before_indexed:
  "specSortIndex (example_entry (Some (Finite 5))) = Some (Finite 5)
   \<and> specSortIndex (example_entry None) = None
   \<and> getSortIndex (example_entry None)
       (size_num [(''a'', example_entry (Some (Finite 5))), (''b'', example_entry None)]) = Finite 2
   \<and> getSortedDataSeriesColorsValuesMap
       [(''a'', example_entry (Some (Finite 5))), (''b'', example_entry None)] =
       [(''b'', example_entry None), (''a'', example_entry (Some (Finite 5)))]"
  by (simp add: getSortedDataSeriesColorsValuesMap_def js_sort_def getSortIndex_def size_num_def
      new_Map_def example_entry_def)

section \<open>Ordinal ordering\<close>

lemma sum_of_Finite:
  "xValueSums v \<noteq> Some NaN \<Longrightarrow> sum_of xValueSums v = Finite (sum_value xValueSums v)"
  by (auto simp: sum_of_def sum_value_def zero_jsnum_def split: option.splits jsnum.splits)

lemma ordinal_sort_eq:
  assumes d: "distinct xValues"
    and fin: "\<And>v. v \<in> set xValues \<Longrightarrow> xValueSums v \<noteq> Some NaN"
    and agg: "binAgg orderBy \<noteq> Some BinAgg_None"
  shows "getSortedOrdinalXValues xValues xValueSums (Some orderBy) =
     sort_key (\<lambda>v. (if direction orderBy = Some Direction_Ascending then 1 else - 1)
                     * sum_value xValueSums v) xValues"
proof -
  let ?d = "if direction orderBy = Some Direction_Ascending then 1 else - 1 :: rat"
  let ?cmp = "\<lambda>v1 v2. num_mul
               (if direction orderBy = Some Direction_Ascending then Finite 1 else Finite (- 1))
               (num_sub (sum_of xValueSums v1) (sum_of xValueSums v2))"
  let ?f = "\<lambda>v. ?d * sum_value xValueSums v"
  have cmp: "cmp_pos (?cmp a b) = (?f b < ?f a)" if "a \<in> set xValues" "b \<in> set xValues" for a b
    using fin[OF that(1)] fin[OF that(2)] by (simp add: sum_of_Finite)
  have "js_sort ?cmp xValues = sort_key ?f xValues"
    by (rule js_sort_sort_key) (rule cmp)
  moreover have "distinct (sort_key ?f xValues)"
    using d by simp
  ultimately show ?thesis
    using agg by (simp add: getSortedOrdinalXValues_def new_Set_distinct)
qed

text \<open>
  Claim C5. With no policy, or with the aggregation kind \<open>none\<close>, the domain is returned as
  it is. With any other kind (sum, unknown or absent) the domain, a set whose sums are
  numbers, is sorted by the accumulated sum of each x value, stably: ascending for the
  direction \<open>ascending\<close>, descending otherwise, the direction being the sign of the
  comparison. The domain \<open>c, a, b\<close> with the sums 10 for \<open>a\<close>, 5 for \<open>b\<close> and 1 for \<open>c\<close>
  and the policy sum, ascending, comes out as \<open>c, b, a\<close>.
\<close>

theorem getSortedOrdinalXValues_policy:
  "getSortedOrdinalXValues xValues xValueSums None = xValues
   \<and> (binAgg orderBy = Some BinAgg_None \<longrightarrow>
        getSortedOrdinalXValues xValues xValueSums (Some orderBy) = xValues)
   \<and> (binAgg orderBy \<noteq> Some BinAgg_None \<and> distinct xValues
        \<and> (\<forall>v \<in> set xValues. xValueSums v \<noteq> Some NaN) \<longrightarrow>
        getSortedOrdinalXValues xValues xValueSums (Some orderBy) =
          sort_key (\<lambda>v. (if direction orderBy = Some Direction_Ascending then 1 else - 1)
                          * sum_value xValueSums v) xValues
        \<and> mset (getSortedOrdinalXValues xValues xValueSums (Some orderBy)) = mset xValues
        \<and> (if direction orderBy = Some Direction_Ascending
            then sorted (map (sum_value xValueSums)
                   (getSortedOrdinalXValues xValues xValueSums (Some orderBy)))
            else sorted (rev (map (sum_value xValueSums)
                   (getSortedOrdinalXValues xValues xValueSums (Some orderBy))))))
   \<and> getSortedOrdinalXValues [PStr ''c'', PStr ''a'', PStr ''b'']
        [PStr ''a'' \<mapsto> Finite 10, PStr ''b'' \<mapsto> Finite 5, PStr ''c'' \<mapsto> Finite 1]
        (Some \<lparr>binAgg = Some BinAgg_Sum, direction = Some Direction_Ascending\<rparr>) =
        [PStr ''c'', PStr ''b'', PStr ''a'']"
proof -
  have none: "getSortedOrdinalXValues xValues xValueSums None = xValues"
    by (simp add: getSortedOrdinalXValues_def)
  have agg_none: "getSortedOrdinalXValues xValues xValueSums (Some orderBy) = xValues"
    if "binAgg orderBy = Some BinAgg_None"
    using that by (simp add: getSortedOrdinalXValues_def)
  have sorted_part:
    "getSortedOrdinalXValues xValues xValueSums (Some orderBy) =
          sort_key (\<lambda>v. (if direction orderBy = Some Direction_Ascending then 1 else - 1)
                          * sum_value xValueSums v) xValues
        \<and> mset (getSortedOrdinalXValues xValues xValueSums (Some orderBy)) = mset xValues
        \<and> (if direction orderBy = Some Direction_Ascending
            then sorted (map (sum_value xValueSums)
                   (getSortedOrdinalXValues xValues xValueSums (Some orderBy)))
            else sorted (rev (map (sum_value xValueSums)
                   (getSortedOrdinalXValues xValues xValueSums (Some orderBy)))))"
    if h: "binAgg orderBy \<noteq> Some BinAgg_None" "distinct xValues"
      "\<forall>v \<in> set xValues. xValueSums v \<noteq> Some NaN"
  proof -
    let ?res = "getSortedOrdinalXValues xValues xValueSums (Some orderBy)"
    have eq: "?res = sort_key (\<lambda>v. (if direction orderBy = Some Direction_Ascending then 1 else - 1)
                          * sum_value xValueSums v) xValues"
      using h by (intro ordinal_sort_eq) auto
    have perm: "mset ?res = mset xValues"
      by (simp add: eq)
    have srt: "sorted (map (\<lambda>v. (if direction orderBy = Some Direction_Ascending then 1 else - 1)
                          * sum_value xValueSums v) ?res)"
      using sorted_sort_key[of "\<lambda>v. (if direction orderBy = Some Direction_Ascending then 1 else - 1)
                          * sum_value xValueSums v" xValues]
      by (simp only: eq[symmetric])
    have dir: "if direction orderBy = Some Direction_Ascending
            then sorted (map (sum_value xValueSums) ?res)
            else sorted (rev (map (sum_value xValueSums) ?res))"
    proof (cases "direction orderBy = Some Direction_Ascending")
      case True
      then show ?thesis using srt by simp
    next
      case False
      then have "sorted (map (\<lambda>v. - sum_value xValueSums v) ?res)"
        using srt by simp
      then have "sorted (map uminus (map (sum_value xValueSums) ?res))"
        by (simp add: comp_def)
      then have "sorted (rev (map (sum_value xValueSums) ?res))"
        by (simp add: sorted_wrt_rev sorted_map sorted_wrt_map)
      then show ?thesis using False by simp
    qed
    show ?thesis using eq perm dir by blast
  qed
  have example: "getSortedOrdinalXValues [PStr ''c'', PStr ''a'', PStr ''b'']
        [PStr ''a'' \<mapsto> Finite 10, PStr ''b'' \<mapsto> Finite 5, PStr ''c'' \<mapsto> Finite 1]
        (Some \<lparr>binAgg = Some BinAgg_Sum, direction = Some Direction_Ascending\<rparr>) =
        [PStr ''c'', PStr ''b'', PStr ''a'']"
    by (simp add: getSortedOrdinalXValues_def js_sort_def sum_of_def new_Set_def
        BinAgg_Sum_def BinAgg_None_def)
  show ?thesis
    using none agg_none sorted_part example by blast
qed

theorem getSortedOrdinalXValues_policy_witness:
  "getSortedOrdinalXValues [PStr ''c'', PStr ''a'', PStr ''b'']
        [PStr ''a'' \<mapsto> Finite 10, PStr ''b'' \<mapsto> Finite 5, PStr ''c'' \<mapsto> Finite 1]
        (Some \<lparr>binAgg = None, direction = Some Direction_Descending\<rparr>) =
        [PStr ''a'', PStr ''b'', PStr ''c'']
   \<and> getSortedOrdinalXValues [PStr ''c'', PStr ''a'', PStr ''b'']
        [PStr ''a'' \<mapsto> Finite 10, PStr ''b'' \<mapsto> Finite 5, PStr ''c'' \<mapsto> Finite 1]
        (Some \<lparr>binAgg = Some BinAgg_None, direction = Some Direction_Descending\<rparr>) =
        [PStr ''c'', PStr ''a'', PStr ''b'']"
proof -
  let ?xs = "[PStr ''c'', PStr ''a'', PStr ''b'']"
  let ?sums = "[PStr ''a'' \<mapsto> Finite 10, PStr ''b'' \<mapsto> Finite 5, PStr ''c'' \<mapsto> Finite 1]"
  let ?ob = "\<lparr>binAgg = None, direction = Some Direction_Descending\<rparr>"
  let ?ob' = "\<lparr>binAgg = Some BinAgg_None, direction = Some Direction_Descending\<rparr>"
  have h: "binAgg ?ob \<noteq> Some BinAgg_None \<and> distinct ?xs \<and> (\<forall>v \<in> set ?xs. ?sums v \<noteq> Some NaN)"
    by simp
  from getSortedOrdinalXValues_policy[of ?xs ?sums ?ob] h
  have "getSortedOrdinalXValues ?xs ?sums (Some ?ob) =
          sort_key (\<lambda>v. (if direction ?ob = Some Direction_Ascending then 1 else - 1)
                          * sum_value ?sums v) ?xs"
    by blast
  then have a: "getSortedOrdinalXValues ?xs ?sums (Some ?ob) = [PStr ''a'', PStr ''b'', PStr ''c'']"
    by (simp add: sum_value_def Direction_Ascending_def Direction_Descending_def)
  from getSortedOrdinalXValues_policy[of ?xs ?sums ?ob']
  have b: "getSortedOrdinalXValues ?xs ?sums (Some ?ob') = ?xs"
    by simp
  show ?thesis using a b by simp
qed

section \<open>The series key\<close>

lemma split_sort_eq:
  assumes "\<And>e. e \<in> set A \<Longrightarrow> is_string (fst e)"
  shows "js_sort (\<lambda>a b. if js_gt B (fst a) (fst b) then Finite 1 else Finite (- 1)) A
       = sort_key (\<lambda>e. prim_text B (fst e)) A"
proof (rule js_sort_sort_key)
  fix a b assume "a \<in> set A" "b \<in> set A"
  then obtain s t where "fst a = PStr s" "fst b = PStr t"
    using assms by (metis is_string.elims(2))
  then show "cmp_pos (if js_gt B (fst a) (fst b) then Finite 1 else Finite (- 1))
           = (prim_text B (fst b) < prim_text B (fst a))"
    by simp
qed

lemma split_sort_number_eq:
  assumes "\<And>e. e \<in> set A \<Longrightarrow> is_finite_number (fst e)"
  shows "js_sort (\<lambda>a b. if js_gt B (fst a) (fst b) then Finite 1 else Finite (- 1)) A
       = sort_key (\<lambda>e. number_value (fst e)) A"
proof (rule js_sort_sort_key)
  fix a b assume "a \<in> set A" "b \<in> set A"
  then obtain s t where "fst a = PNum (Finite s)" "fst b = PNum (Finite t)"
    using assms by (metis is_finite_number.elims(2))
  then show "cmp_pos (if js_gt B (fst a) (fst b) then Finite 1 else Finite (- 1))
           = (number_value (fst b) < number_value (fst a))"
    by simp
qed

lemma key_text_inj:
  assumes "distinct (map fst A)" "\<And>e. e \<in> set A \<Longrightarrow> is_string (fst e)"
  shows "inj_on (\<lambda>e. prim_text B (fst e)) (set A)"
proof (rule inj_onI)
  fix a b assume ab: "a \<in> set A" "b \<in> set A" "prim_text B (fst a) = prim_text B (fst b)"
  obtain s t where st: "fst a = PStr s" "fst b = PStr t"
    using assms(2) ab by (metis is_string.elims(2))
  then have "fst a = fst b" using ab(3) by simp
  then show "a = b"
    using assms(1) ab(1,2) by (metis eq_key_imp_eq_value prod.collapse)
qed

lemma key_number_inj:
  assumes "distinct (map fst A)" "\<And>e. e \<in> set A \<Longrightarrow> is_finite_number (fst e)"
  shows "inj_on (\<lambda>e. number_value (fst e)) (set A)"
proof (rule inj_onI)
  fix a b assume ab: "a \<in> set A" "b \<in> set A" "number_value (fst a) = number_value (fst b)"
  obtain s t where st: "fst a = PNum (Finite s)" "fst b = PNum (Finite t)"
    using assms(2) ab by (metis is_finite_number.elims(2))
  then have "fst a = fst b" using ab(3) by simp
  then show "a = b"
    using assms(1) ab(1,2) by (metis eq_key_imp_eq_value prod.collapse)
qed

lemma sort_key_canonical:
  fixes f :: "'a \<Rightarrow> 'b::linorder"
  assumes "set A = set A'" "distinct A" "distinct A'" "inj_on f (set A)"
  shows "sort_key f A = sort_key f A'"
proof -
  have d: "distinct (map f (sort_key f A))" "distinct (map f (sort_key f A'))"
    using assms by (simp_all add: distinct_map)
  have "map f (sort_key f A) = map f (sort_key f A')"
    by (rule sorted_distinct_set_unique) (use assms d in simp_all)
  moreover have "inj_on f (set (sort_key f A) \<union> set (sort_key f A'))"
    using assms by simp
  ultimately show ?thesis
    by (simp add: inj_on_map_eq_map)
qed

lemma sorted_split_canonical:
  assumes "distinct (map fst A)" "distinct (map fst A')" "map_of A = map_of A'"
    and u: "uniform_keys A"
  shows "js_sort (\<lambda>a b. if js_gt B (fst a) (fst b) then Finite 1 else Finite (- 1)) A
       = js_sort (\<lambda>a b. if js_gt B (fst a) (fst b) then Finite 1 else Finite (- 1)) A'"
proof -
  have s: "set A = set A'"
    using assms(1-3) by (simp add: map_of_inject_set)
  have dA: "distinct A" "distinct A'"
    using assms(1,2) by (simp_all add: distinct_map)
  from u consider (str) "\<forall>e \<in> set A. is_string (fst e)"
    | (num) "\<forall>e \<in> set A. is_finite_number (fst e)"
    by (auto simp: uniform_keys_def list_all_iff)
  then show ?thesis
  proof cases
    case str
    then have a: "\<And>e. e \<in> set A \<Longrightarrow> is_string (fst e)"
      and a': "\<And>e. e \<in> set A' \<Longrightarrow> is_string (fst e)"
      using s by simp_all
    have "sort_key (\<lambda>e. prim_text B (fst e)) A = sort_key (\<lambda>e. prim_text B (fst e)) A'"
      using s dA key_text_inj[OF assms(1) a] by (intro sort_key_canonical)
    then show ?thesis
      using split_sort_eq[of A B, OF a] split_sort_eq[of A' B, OF a'] by simp
  next
    case num
    then have a: "\<And>e. e \<in> set A \<Longrightarrow> is_finite_number (fst e)"
      and a': "\<And>e. e \<in> set A' \<Longrightarrow> is_finite_number (fst e)"
      using s by simp_all
    have "sort_key (\<lambda>e. number_value (fst e)) A = sort_key (\<lambda>e. number_value (fst e)) A'"
      using s dA key_number_inj[OF assms(1) a] by (intro sort_key_canonical)
    then show ?thesis
      using split_sort_number_eq[of A B, OF a] split_sort_number_eq[of A' B, OF a'] by simp
  qed
qed

lemma getSeriesKey_order_independent:
  assumes "distinct (map fst A)" "distinct (map fst A')" "map_of A = map_of A'"
    and "uniform_keys A"
  shows "getSeriesKey B specId yAccessor A smV smH groupId
       = getSeriesKey B specId yAccessor A' smV smH groupId"
  using sorted_split_canonical[OF assms, of B] by (simp add: getSeriesKey_def)

lemma set_join: "set (join sep ss) \<subseteq> set sep \<union> (\<Union>s \<in> set ss. set s)"
  by (induction sep ss rule: join.induct) auto

lemma in_set_join: "c \<in> set (join sep ss) \<Longrightarrow> c \<in> set sep \<or> (\<exists>s \<in> set ss. c \<in> set s)"
  using set_join[of sep ss] by auto

lemma plain_panel_segment:
  assumes "plain_panel B v"
  shows "(v = None \<and> panel_segment B tag v = [])
       \<or> (\<exists>p. v = Some p \<and> CHR ''}'' \<notin> set (prim_text B p)
              \<and> panel_segment B tag v = tag @ CHR ''{'' # prim_text B p @ [CHR ''}''])"
proof (cases v)
  case None
  then show ?thesis by (simp add: panel_segment_def)
next
  case (Some p)
  then have "truthy_prim (Some p)" "CHR ''}'' \<notin> set (prim_text B p)"
    using assms by (simp_all add: plain_text_def)
  then show ?thesis using Some by (simp add: panel_segment_def)
qed

lemma panel_tail_inject:
  assumes "plain_panel B v" "plain_panel B v'" "plain_panel B h" "plain_panel B h'"
    and eq: "panel_segment B ''smV'' v @ panel_segment B ''smH'' h
       = panel_segment B ''smV'' v' @ panel_segment B ''smH'' h'"
  shows "map_option (prim_text B) v = map_option (prim_text B) v'
       \<and> map_option (prim_text B) h = map_option (prim_text B) h'"
proof -
  note pv = plain_panel_segment[OF assms(1), of "''smV''"]
  note pv' = plain_panel_segment[OF assms(2), of "''smV''"]
  note ph = plain_panel_segment[OF assms(3), of "''smH''"]
  note ph' = plain_panel_segment[OF assms(4), of "''smH''"]
  have tail: "map_option (prim_text B) h = map_option (prim_text B) h'"
    if "panel_segment B ''smH'' h = panel_segment B ''smH'' h'"
    using ph ph' that by (auto dest: split_at_char[rotated 2])
  from pv show ?thesis
  proof (elim disjE conjE exE)
    assume v: "v = None" "panel_segment B ''smV'' v = []"
    from pv' show ?thesis
    proof (elim disjE conjE exE)
      assume v': "v' = None" "panel_segment B ''smV'' v' = []"
      then show ?thesis using v eq tail by simp
    next
      fix p' assume v': "v' = Some p'" "CHR ''}'' \<notin> set (prim_text B p')"
        "panel_segment B ''smV'' v' = ''smV'' @ CHR ''{'' # prim_text B p' @ [CHR ''}'']"
      then show ?thesis using v eq ph by auto
    qed
  next
    fix p assume v: "v = Some p" "CHR ''}'' \<notin> set (prim_text B p)"
      "panel_segment B ''smV'' v = ''smV'' @ CHR ''{'' # prim_text B p @ [CHR ''}'']"
    from pv' show ?thesis
    proof (elim disjE conjE exE)
      assume v': "v' = None" "panel_segment B ''smV'' v' = []"
      then show ?thesis using v eq ph' by auto
    next
      fix p' assume v': "v' = Some p'" "CHR ''}'' \<notin> set (prim_text B p')"
        "panel_segment B ''smV'' v' = ''smV'' @ CHR ''{'' # prim_text B p' @ [CHR ''}'']"
      have "prim_text B p @ CHR ''}'' # panel_segment B ''smH'' h
          = prim_text B p' @ CHR ''}'' # panel_segment B ''smH'' h'"
        using eq v(3) v'(3) by simp
      from split_at_char[OF v(2) v'(2) this] show ?thesis
        using v(1) v'(1) tail by simp
    qed
  qed
qed

lemma panel_value_inject:
  assumes "inj_on (prim_text B) (set_option v \<union> set_option v')"
    and "map_option (prim_text B) v = map_option (prim_text B) v'"
  shows "v = v'"
  using assms by (cases v; cases v') (auto dest: inj_onD)

lemma getSeriesKey_shape:
  "getSeriesKey B specId yAccessor A smV smH groupId =
     ''groupId{'' @ (groupId @ CHR ''}'' # (''spec{'' @ (specId @ CHR ''}'' #
       (''yAccessor{'' @ (prim_text B yAccessor @ CHR ''}'' # (''splitAccessors{'' @
         (join ''|'' (map (entry_text B)
             (js_sort (\<lambda>a b. if js_gt B (fst a) (fst b) then Finite 1 else Finite (- 1)) A))
           @ CHR ''}'' # (panel_segment B ''smV'' smV @ panel_segment B ''smH'' smH))))))))"
  by (simp add: getSeriesKey_def entry_text_def[abs_def])

lemma entry_text_plain:
  assumes "plain_text B {CHR ''}'', CHR ''-''} (fst e)" "plain_text B {CHR ''}'', CHR ''|''} (snd e)"
  shows "CHR ''}'' \<notin> set (entry_text B e)"
  using assms by (auto simp: entry_text_def plain_text_def)

lemma entry_text_texts: "entry_text B e = fst (entry_texts B e) @ CHR ''-'' # snd (entry_texts B e)"
  by (simp add: entry_text_def entry_texts_def)

lemma getSeriesKey_inject:
  assumes p: "plain_fields B specId yAccessor A smV smH groupId"
    and p': "plain_fields B specId' yAccessor' A' smV' smH' groupId'"
    and um: "unmixed B yAccessor A smV smH yAccessor' A' smV' smH'"
    and eq: "getSeriesKey B specId yAccessor A smV smH groupId
           = getSeriesKey B specId' yAccessor' A' smV' smH' groupId'"
  shows "specId = specId' \<and> groupId = groupId' \<and> yAccessor = yAccessor'
       \<and> map_of A = map_of A' \<and> smV = smV' \<and> smH = smH'"
proof -
  let ?cmp = "\<lambda>a b. if js_gt B (fst a) (fst b) then Finite 1 else Finite (- 1)"
  let ?sA = "js_sort ?cmp A" and ?sA' = "js_sort ?cmp A'"
  let ?J = "join ''|'' (map (entry_text B) ?sA)" and ?J' = "join ''|'' (map (entry_text B) ?sA')"
  have g: "CHR ''}'' \<notin> set groupId" "CHR ''}'' \<notin> set groupId'"
    and s: "CHR ''}'' \<notin> set specId" "CHR ''}'' \<notin> set specId'"
    and dA: "distinct (map fst A)" "distinct (map fst A')"
    and pan: "plain_panel B smV" "plain_panel B smH" "plain_panel B smV'" "plain_panel B smH'"
    using p p' by (simp_all add: plain_fields_def)
  have y: "CHR ''}'' \<notin> set (prim_text B yAccessor)" "CHR ''}'' \<notin> set (prim_text B yAccessor')"
    using p p' by (simp_all add: plain_fields_def plain_text_def)
  have iy: "inj_on (prim_text B) {yAccessor, yAccessor'}"
    and ie: "inj_on (entry_texts B) (set A \<union> set A')"
    and ismV: "inj_on (prim_text B) (set_option smV \<union> set_option smV')"
    and ismH: "inj_on (prim_text B) (set_option smH \<union> set_option smH')"
    using um by (simp_all add: unmixed_def)
  have eA: "plain_text B {CHR ''}'', CHR ''-''} (fst e) \<and> plain_text B {CHR ''}'', CHR ''|''} (snd e)"
    if "e \<in> set A \<union> set A'" for e
    using p p' that by (auto simp: plain_fields_def list_all_iff)
  have setA: "set ?sA = set A" and setA': "set ?sA' = set A'"
    by (simp_all add: set_js_sort)
  have tA: "CHR ''}'' \<notin> set t"
    if "t \<in> set (map (entry_text B) ?sA) \<union> set (map (entry_text B) ?sA')" for t
  proof -
    from that obtain e where "e \<in> set A \<union> set A'" "t = entry_text B e"
      using setA setA' by auto
    then show ?thesis
      using entry_text_plain[of B e] eA[of e] by simp
  qed
  have J: "CHR ''}'' \<notin> set ?J"
  proof
    assume "CHR ''}'' \<in> set ?J"
    then have "CHR ''}'' \<in> set ''|'' \<or> (\<exists>t \<in> set (map (entry_text B) ?sA). CHR ''}'' \<in> set t)"
      by (rule in_set_join)
    then obtain t where "t \<in> set (map (entry_text B) ?sA)" "CHR ''}'' \<in> set t"
      by auto
    then show False using tA[of t] by blast
  qed
  have J': "CHR ''}'' \<notin> set ?J'"
  proof
    assume "CHR ''}'' \<in> set ?J'"
    then have "CHR ''}'' \<in> set ''|'' \<or> (\<exists>t \<in> set (map (entry_text B) ?sA'). CHR ''}'' \<in> set t)"
      by (rule in_set_join)
    then obtain t where "t \<in> set (map (entry_text B) ?sA')" "CHR ''}'' \<in> set t"
      by auto
    then show False using tA[of t] by blast
  qed
  note eq1 = eq[unfolded getSeriesKey_shape same_append_eq]
  from split_at_char[OF g eq1] have 1: "groupId = groupId'"
    and eq2: "specId @ CHR ''}'' # (''yAccessor{'' @ (prim_text B yAccessor @ CHR ''}'' #
         (''splitAccessors{'' @ (?J @ CHR ''}'' # (panel_segment B ''smV'' smV @ panel_segment B ''smH'' smH)))))
       = specId' @ CHR ''}'' # (''yAccessor{'' @ (prim_text B yAccessor' @ CHR ''}'' #
         (''splitAccessors{'' @ (?J' @ CHR ''}'' # (panel_segment B ''smV'' smV' @ panel_segment B ''smH'' smH')))))"
    by (simp_all only: same_append_eq)
  from split_at_char[OF s eq2] have 2: "specId = specId'"
    and eq3: "prim_text B yAccessor @ CHR ''}'' # (''splitAccessors{'' @ (?J @ CHR ''}'' #
          (panel_segment B ''smV'' smV @ panel_segment B ''smH'' smH)))
       = prim_text B yAccessor' @ CHR ''}'' # (''splitAccessors{'' @ (?J' @ CHR ''}'' #
          (panel_segment B ''smV'' smV' @ panel_segment B ''smH'' smH')))"
    by (simp_all only: same_append_eq)
  from split_at_char[OF y eq3] have ty: "prim_text B yAccessor = prim_text B yAccessor'"
    and eq4: "?J @ CHR ''}'' # (panel_segment B ''smV'' smV @ panel_segment B ''smH'' smH)
       = ?J' @ CHR ''}'' # (panel_segment B ''smV'' smV' @ panel_segment B ''smH'' smH')"
    by (simp_all only: same_append_eq)
  have 3: "yAccessor = yAccessor'"
    using inj_onD[OF iy ty] by simp
  from split_at_char[OF J J' eq4] have eqJ: "?J = ?J'"
    and eq5: "panel_segment B ''smV'' smV @ panel_segment B ''smH'' smH
            = panel_segment B ''smV'' smV' @ panel_segment B ''smH'' smH'"
    by simp_all
  have 5: "smV = smV' \<and> smH = smH'"
    using panel_tail_inject[OF pan(1) pan(3) pan(2) pan(4) eq5]
      panel_value_inject[OF ismV] panel_value_inject[OF ismH] by blast
  have "map (entry_texts B) ?sA = map (entry_texts B) ?sA'"
  proof (rule join_entries_inject[of _ "CHR ''-''" "CHR ''|''"])
    show "CHR ''-'' \<notin> set (fst p) \<and> CHR ''|'' \<notin> set (snd p)"
      if "p \<in> set (map (entry_texts B) ?sA)" for p
    proof -
      from that obtain e where "e \<in> set A" "p = entry_texts B e"
        using setA by auto
      then show ?thesis
        using eA[of e] by (simp add: entry_texts_def plain_text_def)
    qed
    show "CHR ''-'' \<notin> set (fst p) \<and> CHR ''|'' \<notin> set (snd p)"
      if "p \<in> set (map (entry_texts B) ?sA')" for p
    proof -
      from that obtain e where "e \<in> set A'" "p = entry_texts B e"
        using setA' by auto
      then show ?thesis
        using eA[of e] by (simp add: entry_texts_def plain_text_def)
    qed
    show "join ''|'' (map (\<lambda>p. fst p @ CHR ''-'' # snd p) (map (entry_texts B) ?sA))
        = join ''|'' (map (\<lambda>p. fst p @ CHR ''-'' # snd p) (map (entry_texts B) ?sA'))"
      using eqJ by (simp add: comp_def entry_text_texts[symmetric])
  qed
  moreover have "inj_on (entry_texts B) (set ?sA \<union> set ?sA')"
    using ie setA setA' by simp
  ultimately have "?sA = ?sA'"
    by (simp add: inj_on_map_eq_map)
  then have "set A = set A'"
    using setA setA' by simp
  then have 4: "map_of A = map_of A'"
    using dA by (simp add: map_of_inject_set)
  show ?thesis using 1 2 3 4 5 by simp
qed

text \<open>
  Claim C1, as amended. \<open>getSeriesKey\<close> answers for every identifier. The key does not
  depend on the insertion order of the split accessors when these are all strings or all
  numbers other than \<open>NaN\<close>. Two identifiers with the same key have the same spec id, group
  id, y accessor, map of split accessors and panel values, provided that the text of no
  field contains a closing brace, the text of no split accessor contains a dash, the text
  of no split value contains a bar, a panel value that is present is truthy, and no field
  is a number in one identifier and the string of its text in the other.
\<close>

theorem getSeriesKey_injective_on_plain:
  "(distinct (map fst A) \<and> distinct (map fst A') \<and> map_of A = map_of A' \<and> uniform_keys A \<longrightarrow>
      getSeriesKey B specId yAccessor A smV smH groupId
        = getSeriesKey B specId yAccessor A' smV smH groupId)
   \<and> (plain_fields B specId yAccessor A smV smH groupId
      \<and> plain_fields B specId' yAccessor' A' smV' smH' groupId'
      \<and> unmixed B yAccessor A smV smH yAccessor' A' smV' smH'
      \<and> getSeriesKey B specId yAccessor A smV smH groupId
          = getSeriesKey B specId' yAccessor' A' smV' smH' groupId' \<longrightarrow>
      specId = specId' \<and> groupId = groupId' \<and> yAccessor = yAccessor'
        \<and> map_of A = map_of A' \<and> smV = smV' \<and> smH = smH')"
proof -
  have order: "getSeriesKey B specId yAccessor A smV smH groupId
        = getSeriesKey B specId yAccessor A' smV smH groupId"
    if "distinct (map fst A)" "distinct (map fst A')" "map_of A = map_of A'" "uniform_keys A"
    using that by (rule getSeriesKey_order_independent)
  have inj: "specId = specId' \<and> groupId = groupId' \<and> yAccessor = yAccessor'
         \<and> map_of A = map_of A' \<and> smV = smV' \<and> smH = smH'"
    if "plain_fields B specId yAccessor A smV smH groupId"
      "plain_fields B specId' yAccessor' A' smV' smH' groupId'"
      "unmixed B yAccessor A smV smH yAccessor' A' smV' smH'"
      "getSeriesKey B specId yAccessor A smV smH groupId
          = getSeriesKey B specId' yAccessor' A' smV' smH' groupId'"
    using that by (rule getSeriesKey_inject)
  show ?thesis using order inj by blast
qed

text \<open>
  The claim as stated fails: the values are embedded by their texts, without escaping, and
  a falsy panel value leaves no trace. A split value that contains the separators reads as
  two entries; the number \<open>1\<close> and the string \<open>"1"\<close> have the same text; and the empty
  string as panel value gives the key of an absent panel value. In each of the three pairs
  the identifiers differ in a field and the keys are equal.
\<close>

theorem getSeriesKey_collisions_counterexample:
  "map_of [(PStr ''a'', PStr ''1|b-2'')] (PStr ''b'')
     \<noteq> map_of [(PStr ''a'', PStr ''1''), (PStr ''b'', PStr ''2'')] (PStr ''b'')
   \<and> getSeriesKey example_builtins ''s1'' (PStr ''y'') [(PStr ''a'', PStr ''1|b-2'')] None None ''g1''
     = getSeriesKey example_builtins ''s1'' (PStr ''y'')
         [(PStr ''a'', PStr ''1''), (PStr ''b'', PStr ''2'')] None None ''g1''
   \<and> PNum (Finite 1) \<noteq> PStr ''1''
   \<and> getSeriesKey example_builtins ''s1'' (PNum (Finite 1)) [] None None ''g1''
     = getSeriesKey example_builtins ''s1'' (PStr ''1'') [] None None ''g1''
   \<and> Some (PStr '''') \<noteq> (None :: prim option)
   \<and> getSeriesKey example_builtins ''s1'' (PStr ''y'') [] (Some (PStr '''')) None ''g1''
     = getSeriesKey example_builtins ''s1'' (PStr ''y'') [] None None ''g1''"
  by (simp add: getSeriesKey_def js_sort_def panel_segment_def example_builtins_def
      example_numToString_def)

theorem getSeriesKey_injective_on_plain_witness:
  "distinct (map fst [(PNum (Finite 2), PStr ''u''), (PNum (Finite 1), PStr ''v'')])
   \<and> uniform_keys [(PNum (Finite 2), PStr ''u''), (PNum (Finite 1), PStr ''v'')]
   \<and> getSeriesKey example_builtins ''s1'' (PStr ''y'')
       [(PNum (Finite 2), PStr ''u''), (PNum (Finite 1), PStr ''v'')] (Some (PStr ''p'')) None ''g1''
     = getSeriesKey example_builtins ''s1'' (PStr ''y'')
       [(PNum (Finite 1), PStr ''v''), (PNum (Finite 2), PStr ''u'')] (Some (PStr ''p'')) None ''g1''
   \<and> plain_fields example_builtins ''s1'' (PStr ''y'')
       [(PStr ''a'', PNum (Finite 1)), (PStr ''b|c'', PStr ''x'')] (Some (PNum (Finite 2))) None ''g1''
   \<and> plain_fields example_builtins ''s1'' (PStr ''y'')
       [(PStr ''a'', PNum (Finite 2)), (PStr ''b|c'', PStr ''x'')] (Some (PNum (Finite 2))) None ''g1''
   \<and> unmixed example_builtins (PStr ''y'')
       [(PStr ''a'', PNum (Finite 1)), (PStr ''b|c'', PStr ''x'')] (Some (PNum (Finite 2))) None
       (PStr ''y'')
       [(PStr ''a'', PNum (Finite 2)), (PStr ''b|c'', PStr ''x'')] (Some (PNum (Finite 2))) None
   \<and> getSeriesKey example_builtins ''s1'' (PStr ''y'')
       [(PStr ''a'', PNum (Finite 1)), (PStr ''b|c'', PStr ''x'')] (Some (PNum (Finite 2))) None ''g1''
     \<noteq> getSeriesKey example_builtins ''s1'' (PStr ''y'')
       [(PStr ''a'', PNum (Finite 2)), (PStr ''b|c'', PStr ''x'')] (Some (PNum (Finite 2))) None ''g1''"
proof -
  let ?N = "[(PNum (Finite 2), PStr ''u''), (PNum (Finite 1), PStr ''v'')]"
  let ?N' = "[(PNum (Finite 1), PStr ''v''), (PNum (Finite 2), PStr ''u'')]"
  let ?A = "[(PStr ''a'', PNum (Finite 1)), (PStr ''b|c'', PStr ''x'')]"
  let ?C = "[(PStr ''a'', PNum (Finite 2)), (PStr ''b|c'', PStr ''x'')]"
  have d: "distinct (map fst ?N)" "distinct (map fst ?N')"
    by simp_all
  have u: "uniform_keys ?N"
    by (simp add: uniform_keys_def)
  have m: "map_of ?N = map_of ?N'"
    by (rule ext) simp
  have p: "plain_fields example_builtins ''s1'' (PStr ''y'') ?A (Some (PNum (Finite 2))) None ''g1''"
    and pc: "plain_fields example_builtins ''s1'' (PStr ''y'') ?C (Some (PNum (Finite 2))) None ''g1''"
    by (simp_all add: plain_fields_def plain_text_def example_builtins_def example_numToString_def)
  have um: "unmixed example_builtins (PStr ''y'') ?A (Some (PNum (Finite 2))) None
       (PStr ''y'') ?C (Some (PNum (Finite 2))) None"
    by (simp add: unmixed_def inj_on_def entry_texts_def example_builtins_def example_numToString_def)
  have n: "map_of ?A \<noteq> map_of ?C"
    by (auto dest: fun_cong[of _ _ "PStr ''a''"])
  from getSeriesKey_injective_on_plain[of ?N ?N' example_builtins "''s1''" "PStr ''y''"
      "Some (PStr ''p'')" None "''g1''"] d u m
  have a: "getSeriesKey example_builtins ''s1'' (PStr ''y'') ?N (Some (PStr ''p'')) None ''g1''
     = getSeriesKey example_builtins ''s1'' (PStr ''y'') ?N' (Some (PStr ''p'')) None ''g1''"
    by blast
  from getSeriesKey_injective_on_plain[of ?A ?C example_builtins "''s1''" "PStr ''y''"
      "Some (PNum (Finite 2))" None "''g1''" "''s1''" "PStr ''y''" "Some (PNum (Finite 2))" None "''g1''"]
    p pc um n
  have b: "getSeriesKey example_builtins ''s1'' (PStr ''y'') ?A (Some (PNum (Finite 2))) None ''g1''
     \<noteq> getSeriesKey example_builtins ''s1'' (PStr ''y'') ?C (Some (PNum (Finite 2))) None ''g1''"
    by blast
  show ?thesis using d(1) u p pc um a b by blast
qed

section \<open>The legacy branch and the default branch\<close>

text \<open>
  Claim C2, as amended. For every spec, map of sums and flags, the legacy branch and the
  default branch produce series for the same keys, with the same data as multisets. Both
  add the same terms to the map of sums, each to the sum of the same x value: the stored
  map is the map of the caller after the additions of \<open>legacy_terms\<close> and of
  \<open>default_terms\<close> in their order, and the two lists of terms are equal as multisets; they
  are added in different orders, and nothing is stated about the equality of the sums. The
  list of x values of the legacy branch is that of the default branch repeated once per y
  accessor; with at least one y accessor the two lists hold the same values and the
  panel-value sets are equal.
\<close>

theorem split_branches_agree:
  "(\<forall>k. mset (series_data k (r_dataSeries
            (splitSeriesDataByAccessors B spec acc isStacked True stackMode smallMultiples)))
        = mset (series_data k (r_dataSeries
            (splitSeriesDataByAccessors B spec acc isStacked False stackMode smallMultiples))))
   \<and> fst ` set (r_dataSeries
         (splitSeriesDataByAccessors B spec acc isStacked True stackMode smallMultiples))
     = fst ` set (r_dataSeries
         (splitSeriesDataByAccessors B spec acc isStacked False stackMode smallMultiples))
   \<and> r_xValueSums (splitSeriesDataByAccessors B spec acc isStacked True stackMode smallMultiples)
     = fold sum_add (legacy_terms B spec) acc
   \<and> r_xValueSums (splitSeriesDataByAccessors B spec acc isStacked False stackMode smallMultiples)
     = fold sum_add (default_terms B spec) acc
   \<and> mset (legacy_terms B spec) = mset (default_terms B spec)
   \<and> r_xValues (splitSeriesDataByAccessors B spec acc isStacked True stackMode smallMultiples)
     = concat (replicate (length (spec_yAccessors spec))
         (r_xValues (splitSeriesDataByAccessors B spec acc isStacked False stackMode smallMultiples)))
   \<and> (spec_yAccessors spec \<noteq> [] \<longrightarrow>
        set (r_xValues (splitSeriesDataByAccessors B spec acc isStacked True stackMode smallMultiples))
          = set (r_xValues
              (splitSeriesDataByAccessors B spec acc isStacked False stackMode smallMultiples))
        \<and> r_smVValues (splitSeriesDataByAccessors B spec acc isStacked True stackMode smallMultiples)
          = r_smVValues (splitSeriesDataByAccessors B spec acc isStacked False stackMode smallMultiples)
        \<and> r_smHValues (splitSeriesDataByAccessors B spec acc isStacked True stackMode smallMultiples)
          = r_smHValues (splitSeriesDataByAccessors B spec acc isStacked False stackMode smallMultiples))"
proof -
  let ?ais = "indexed (spec_yAccessors spec)"
  let ?c = "contributions B spec isStacked stackMode smallMultiples"
  let ?cL = "concat (map (\<lambda>ai. concat (map (\<lambda>d. ?c d ai) (spec_data spec))) ?ais)"
  let ?cD = "concat (map (\<lambda>d. concat (map (?c d) ?ais)) (spec_data spec))"
  have cs: "mset ?cL = mset ?cD"
    by (rule mset_loop_interchange)
  have ts: "mset (legacy_terms B spec) = mset (default_terms B spec)"
    unfolding legacy_terms_def default_terms_def by (rule mset_loop_interchange)
  have dL: "r_dataSeries (splitSeriesDataByAccessors B spec acc isStacked True stackMode smallMultiples)
          = fold ds_add ?cL []"
    and dD: "r_dataSeries (splitSeriesDataByAccessors B spec acc isStacked False stackMode smallMultiples)
          = fold ds_add ?cD []"
    by (simp_all add: splitSeriesDataByAccessors_def Let_def traverse_legacy traverse_default)
  have data: "mset (series_data k (fold ds_add ?cL [])) = mset (series_data k (fold ds_add ?cD []))" for k
  proof -
    have e: "series_data k [] = []"
      by (simp add: series_data_def)
    show ?thesis
      using mset_concat_map_filter_cong[OF cs, of "\<lambda>c. s_data (snd c)" "\<lambda>c. fst c = k"]
      by (simp add: series_data_fold_ds_add e)
  qed
  have keys: "fst ` set (fold ds_add ?cL []) = fst ` set (fold ds_add ?cD [])"
    using mset_eq_setD[OF cs] by (simp add: keys_fold_ds_add)
  have sL: "r_xValueSums (splitSeriesDataByAccessors B spec acc isStacked True stackMode smallMultiples)
     = fold sum_add (legacy_terms B spec) acc"
    by (simp add: splitSeriesDataByAccessors_def Let_def traverse_legacy legacy_terms_def)
  have sD: "r_xValueSums (splitSeriesDataByAccessors B spec acc isStacked False stackMode smallMultiples)
     = fold sum_add (default_terms B spec) acc"
    by (simp add: splitSeriesDataByAccessors_def Let_def traverse_default default_terms_def)
  have xs: "r_xValues (splitSeriesDataByAccessors B spec acc isStacked True stackMode smallMultiples)
     = concat (replicate (length (spec_yAccessors spec))
         (r_xValues (splitSeriesDataByAccessors B spec acc isStacked False stackMode smallMultiples)))"
    by (simp add: splitSeriesDataByAccessors_def Let_def traverse_legacy traverse_default)
  have nonempty: "set (r_xValues (splitSeriesDataByAccessors B spec acc isStacked True stackMode smallMultiples))
          = set (r_xValues
              (splitSeriesDataByAccessors B spec acc isStacked False stackMode smallMultiples))
        \<and> r_smVValues (splitSeriesDataByAccessors B spec acc isStacked True stackMode smallMultiples)
          = r_smVValues (splitSeriesDataByAccessors B spec acc isStacked False stackMode smallMultiples)
        \<and> r_smHValues (splitSeriesDataByAccessors B spec acc isStacked True stackMode smallMultiples)
          = r_smHValues (splitSeriesDataByAccessors B spec acc isStacked False stackMode smallMultiples)"
    if "spec_yAccessors spec \<noteq> []"
    using that
    by (simp add: splitSeriesDataByAccessors_def Let_def traverse_legacy traverse_default
        fold_add_sm_replicate)
  show ?thesis
    using data keys sL sD ts xs nonempty unfolding dL dD by blast
qed

lemma example_pair_terms:
  "legacy_terms example_builtins example_pair =
     [(PStr ''a'', Finite 1), (PStr ''a'', Finite 3), (PStr ''a'', Finite 2), (PStr ''a'', Finite 4)]
   \<and> default_terms example_builtins example_pair =
     [(PStr ''a'', Finite 1), (PStr ''a'', Finite 2), (PStr ''a'', Finite 3), (PStr ''a'', Finite 4)]"
  by (simp add: legacy_terms_def default_terms_def sum_terms_def example_pair_def
      example_spec_def indexed_def datum_head_def getSplitAccessors_def get_prop_def
      y1_value_def cast_value_def example_builtins_def example_toNumber_def or_zero_def upt_rec)

lemma example_pair_default:
  "r_xValues (splitSeriesDataByAccessors example_builtins example_pair Map.empty False False None None)
     = [PStr ''a'', PStr ''a'']
   \<and> r_smVValues (splitSeriesDataByAccessors example_builtins example_pair Map.empty False False None None)
     = [DEFAULT_SINGLE_PANEL_SM_VALUE]
   \<and> r_smHValues (splitSeriesDataByAccessors example_builtins example_pair Map.empty False False None None)
     = [DEFAULT_SINGLE_PANEL_SM_VALUE]"
  by (simp add: splitSeriesDataByAccessors_def Let_def traverse_default valid_xs_def head_xs_def
      head_smV_def head_smH_def sm_value_def sm_vertical_def sm_horizontal_def add_sm_def
      example_pair_def example_spec_def datum_head_def getSplitAccessors_def get_prop_def
      example_builtins_def)

theorem split_branches_agree_witness:
  "spec_yAccessors example_pair \<noteq> []
   \<and> legacy_terms example_builtins example_pair \<noteq> default_terms example_builtins example_pair
   \<and> mset (legacy_terms example_builtins example_pair)
       = mset (default_terms example_builtins example_pair)
   \<and> r_xValues (splitSeriesDataByAccessors example_builtins example_pair Map.empty False True None None)
       = [PStr ''a'', PStr ''a'', PStr ''a'', PStr ''a'']
   \<and> r_smVValues (splitSeriesDataByAccessors example_builtins example_pair Map.empty False True None None)
       = [DEFAULT_SINGLE_PANEL_SM_VALUE]
   \<and> r_smHValues (splitSeriesDataByAccessors example_builtins example_pair Map.empty False True None None)
       = [DEFAULT_SINGLE_PANEL_SM_VALUE]"
proof -
  note agree = split_branches_agree[of example_builtins example_pair Map.empty False None None]
  have y: "spec_yAccessors example_pair \<noteq> []" "length (spec_yAccessors example_pair) = 2"
    by (simp_all add: example_pair_def)
  have ms: "mset (legacy_terms example_builtins example_pair)
       = mset (default_terms example_builtins example_pair)"
    using agree by blast
  have xs: "r_xValues (splitSeriesDataByAccessors example_builtins example_pair Map.empty False True None None)
     = concat (replicate 2
         (r_xValues (splitSeriesDataByAccessors example_builtins example_pair Map.empty False False None None)))"
    using agree y(2) by simp
  have sm: "r_smVValues (splitSeriesDataByAccessors example_builtins example_pair Map.empty False True None None)
          = r_smVValues (splitSeriesDataByAccessors example_builtins example_pair Map.empty False False None None)"
    "r_smHValues (splitSeriesDataByAccessors example_builtins example_pair Map.empty False True None None)
          = r_smHValues (splitSeriesDataByAccessors example_builtins example_pair Map.empty False False None None)"
    using agree y(1) by blast+
  have ne: "legacy_terms example_builtins example_pair \<noteq> default_terms example_builtins example_pair"
    by (simp add: example_pair_terms)
  show ?thesis
    using y(1) ne ms
    by (simp only: xs sm example_pair_default) (simp add: numeral_2_eq_2)
qed

text \<open>
  The claim as stated fails on the list of x values: the legacy branch pushes the x value of
  a record once for every y accessor. With two y accessors and one record the lists are
  \<open>a, a\<close> and \<open>a\<close>.
\<close>

theorem split_branches_xValues_counterexample:
  "r_xValues (splitSeriesDataByAccessors example_builtins example_two Map.empty False True None None)
     = [PStr ''a'', PStr ''a'']
   \<and> r_xValues (splitSeriesDataByAccessors example_builtins example_two Map.empty False False None None)
     = [PStr ''a'']"
  by (simp add: splitSeriesDataByAccessors_def Let_def traverse_legacy traverse_default valid_xs_def
      head_xs_def example_two_def example_spec_def datum_head_def getSplitAccessors_def
      get_prop_def example_builtins_def numeral_2_eq_2)

section \<open>The sums of the x values\<close>







section \<open>Kept records and the single series\<close>

lemma cleaned_datum: "c_datum (cleaned B spec datum a i) = datum"
  by (simp add: cleaned_def extractYAndMarkFromDatum_def case_prod_unfold Let_def)

lemma contribution_data:
  "\<exists>d. s_data (snd (contribution B spec isStacked stackMode sm datum x sa a i)) = [d]
       \<and> d_datum d = datum"
  by (simp add: contribution_def Let_def cleaned_datum)

lemma contributions_cases:
  assumes "c \<in> set (contributions B spec isStacked stackMode sm datum ai)"
  shows "record_kept B spec datum \<and> (\<exists>d. s_data (snd c) = [d] \<and> d_datum d = datum)"
proof -
  have "datum_head B spec datum \<noteq> None"
    using assms by (cases "datum_head B spec datum") (simp_all add: contributions_def)
  then obtain x sa where h: "datum_head B spec datum = Some (x, sa)"
    by (cases "datum_head B spec datum") auto
  have c: "c = contribution B spec isStacked stackMode sm datum x sa (fst ai) (snd ai)"
    using assms h by (simp add: contributions_def)
  have "record_kept B spec datum"
    using h datum_head_kept[of B spec datum] by simp
  then show ?thesis
    using contribution_data[of B spec isStacked stackMode sm datum x sa "fst ai" "snd ai"] c by simp
qed

lemma series_of_entry:
  assumes "e \<in> set (fold ds_add cs [])"
  shows "s_data (snd e) = concat (map (\<lambda>c. s_data (snd c)) (filter (\<lambda>c. fst c = fst e) cs))"
proof -
  have "distinct (map fst (fold ds_add cs []))"
    by (rule distinct_fold_ds_add) simp
  then have "map_of (fold ds_add cs []) (fst e) = Some (snd e)"
    using assms by (metis map_of_is_SomeI prod.collapse)
  then have "s_data (snd e) = series_data (fst e) (fold ds_add cs [])"
    by (simp add: series_data_def)
  also have "\<dots> = series_data (fst e) [] @ concat (map (\<lambda>c. s_data (snd c)) (filter (\<lambda>c. fst c = fst e) cs))"
    by (rule series_data_fold_ds_add)
  also have "series_data (fst e) [] = []"
    by (simp add: series_data_def)
  finally show ?thesis by simp
qed

lemma split_dataSeries_set:
  "\<exists>cs. r_dataSeries (splitSeriesDataByAccessors B spec acc isStacked flag stackMode sm)
          = fold ds_add cs []
      \<and> set cs = (\<Union>d \<in> set (spec_data spec). \<Union>ai \<in> set (indexed (spec_yAccessors spec)).
                    set (contributions B spec isStacked stackMode sm d ai))"
proof (cases flag)
  case True
  let ?cs = "concat (map (\<lambda>ai. concat (map (\<lambda>d.
              contributions B spec isStacked stackMode sm d ai) (spec_data spec)))
            (indexed (spec_yAccessors spec)))"
  have "r_dataSeries (splitSeriesDataByAccessors B spec acc isStacked flag stackMode sm)
          = fold ds_add ?cs []"
    using True by (simp add: splitSeriesDataByAccessors_def Let_def traverse_legacy)
  moreover have "set ?cs = (\<Union>d \<in> set (spec_data spec). \<Union>ai \<in> set (indexed (spec_yAccessors spec)).
                    set (contributions B spec isStacked stackMode sm d ai))"
    by (simp only: set_concat set_map image_image) blast
  ultimately show ?thesis by blast
next
  case False
  let ?cs = "concat (map (\<lambda>d. concat (map (contributions B spec isStacked stackMode sm d)
             (indexed (spec_yAccessors spec)))) (spec_data spec))"
  have "r_dataSeries (splitSeriesDataByAccessors B spec acc isStacked flag stackMode sm)
          = fold ds_add ?cs []"
    using False by (simp add: splitSeriesDataByAccessors_def Let_def traverse_default)
  moreover have "set ?cs = (\<Union>d \<in> set (spec_data spec). \<Union>ai \<in> set (indexed (spec_yAccessors spec)).
                    set (contributions B spec isStacked stackMode sm d ai))"
    by (simp only: set_concat set_map image_image)
  ultimately show ?thesis by blast
qed

lemma in_filtered_data:
  fixes cs :: "(SeriesKey \<times> DataSeries) list"
  assumes "d \<in> set (concat (map (\<lambda>c. s_data (snd c)) (filter (\<lambda>c. fst c = k) cs)))"
  shows "\<exists>c \<in> set cs. d \<in> set (s_data (snd c))"
proof -
  from assms obtain ys where "ys \<in> set (map (\<lambda>c. s_data (snd c)) (filter (\<lambda>c. fst c = k) cs))" "d \<in> set ys"
    unfolding set_concat by (rule UN_E)
  then obtain c where "c \<in> set (filter (\<lambda>c. fst c = k) cs)" "ys = s_data (snd c)"
    unfolding set_map by (auto elim: imageE)
  then show ?thesis
    using \<open>d \<in> set ys\<close> by (intro bexI[of _ c]) simp_all
qed

lemma split_data_from_kept:
  assumes "e \<in> set (r_dataSeries (splitSeriesDataByAccessors B spec acc isStacked flag stackMode sm))"
    and "d \<in> set (s_data (snd e))"
  shows "d_datum d \<in> set (spec_data spec) \<and> record_kept B spec (d_datum d)"
proof -
  obtain cs where r: "r_dataSeries (splitSeriesDataByAccessors B spec acc isStacked flag stackMode sm)
          = fold ds_add cs []"
    and cs: "set cs = (\<Union>d \<in> set (spec_data spec). \<Union>ai \<in> set (indexed (spec_yAccessors spec)).
                    set (contributions B spec isStacked stackMode sm d ai))"
    using split_dataSeries_set[of B spec acc isStacked flag stackMode sm] by (elim exE conjE)
  have "d \<in> set (concat (map (\<lambda>c. s_data (snd c)) (filter (\<lambda>c. fst c = fst e) cs)))"
    using series_of_entry[of e cs] assms r by simp
  then have "\<exists>c \<in> set cs. d \<in> set (s_data (snd c))"
    by (rule in_filtered_data)
  then obtain c where c: "c \<in> set cs" "d \<in> set (s_data (snd c))"
    by (elim bexE)
  from c(1) obtain datum ai where datum: "datum \<in> set (spec_data spec)"
    and ci: "c \<in> set (contributions B spec isStacked stackMode sm datum ai)"
    unfolding cs by blast
  from contributions_cases[OF ci] obtain d' where kept: "record_kept B spec datum"
    and d': "s_data (snd c) = [d']" "d_datum d' = datum"
    by blast
  have "d = d'"
    using c(2) d'(1) by simp
  then show ?thesis
    using kept d'(2) datum by simp
qed

lemma fold_ds_add_same_key:
  assumes "\<And>c. c \<in> set cs \<Longrightarrow> fst c = k"
  shows "fold ds_add cs [(k, s)] = [(k, s\<lparr>s_data := s_data s @ concat (map (\<lambda>c. s_data (snd c)) cs)\<rparr>)]"
  using assms
proof (induction cs arbitrary: s)
  case Nil
  show ?case by simp
next
  case (Cons c cs)
  have k: "fst c = k" using Cons.prems by simp
  have step: "ds_add c [(k, s)] = [(k, s\<lparr>s_data := s_data s @ s_data (snd c)\<rparr>)]"
    using k by (simp add: ds_add_def)
  have ih: "fold ds_add cs [(k, s\<lparr>s_data := s_data s @ s_data (snd c)\<rparr>)]
      = [(k, s\<lparr>s_data := s_data s @ s_data (snd c)\<rparr>
             \<lparr>s_data := s_data (s\<lparr>s_data := s_data s @ s_data (snd c)\<rparr>)
                @ concat (map (\<lambda>c. s_data (snd c)) cs)\<rparr>)]"
    by (rule Cons.IH) (simp add: Cons.prems)
  show ?case
    by (simp only: fold_simps comp_apply step ih) simp
qed

lemma fold_ds_add_one_series:
  assumes "\<And>c. c \<in> set cs \<Longrightarrow> fst c = k" and "cs \<noteq> []"
  shows "\<exists>s. fold ds_add cs [] = [(k, s)] \<and> s_data s = concat (map (\<lambda>c. s_data (snd c)) cs)"
proof -
  obtain c cs' where cs: "cs = c # cs'"
    using assms(2) by (cases cs) auto
  have k: "fst c = k" using assms(1) cs by simp
  have "ds_add c [] = [(k, snd c)]"
    using k by (simp add: ds_add_def prod_eq_iff)
  then have "fold ds_add cs [] = fold ds_add cs' [(k, snd c)]"
    using cs by simp
  also have "\<dots> = [(k, (snd c)\<lparr>s_data := s_data (snd c) @ concat (map (\<lambda>c. s_data (snd c)) cs')\<rparr>)]"
    by (rule fold_ds_add_same_key) (simp add: assms(1) cs)
  finally show ?thesis
    using cs by simp
qed

lemma single_accessor_contributions:
  assumes ya: "spec_yAccessors spec = [a]"
  shows "r_dataSeries (splitSeriesDataByAccessors B spec acc isStacked flag stackMode sm)
       = fold ds_add (concat (map (\<lambda>d. contributions B spec isStacked stackMode sm d (a, 0))
                                (spec_data spec))) []"
  by (cases flag)
     (simp_all add: splitSeriesDataByAccessors_def Let_def traverse_legacy traverse_default ya
        indexed_def)

lemma contributions_length:
  "length (concat (map (\<lambda>d. contributions B spec isStacked stackMode sm d ai) data))
     = length (filter (record_kept B spec) data)"
  "length (concat (map (\<lambda>c. s_data (snd c))
       (concat (map (\<lambda>d. contributions B spec isStacked stackMode sm d ai) data))))
     = length (filter (record_kept B spec) data)"
proof -
  have one: "contributions B spec isStacked stackMode sm d ai \<noteq> [] \<longleftrightarrow> record_kept B spec d" for d
    using datum_head_kept[of B spec d]
    by (cases "datum_head B spec d") (auto simp: contributions_def)
  have len: "length (contributions B spec isStacked stackMode sm d ai)
       = (if record_kept B spec d then 1 else 0)" for d
    using datum_head_kept[of B spec d]
    by (cases "datum_head B spec d") (auto simp: contributions_def)
  have dat: "length (concat (map (\<lambda>c. s_data (snd c)) (contributions B spec isStacked stackMode sm d ai)))
       = (if record_kept B spec d then 1 else 0)" for d
    using datum_head_kept[of B spec d]
    by (cases "datum_head B spec d") (auto simp: contributions_def contribution_def Let_def)
  show "length (concat (map (\<lambda>d. contributions B spec isStacked stackMode sm d ai) data))
     = length (filter (record_kept B spec) data)"
    by (induction data) (simp_all add: len)
  show "length (concat (map (\<lambda>c. s_data (snd c))
       (concat (map (\<lambda>d. contributions B spec isStacked stackMode sm d ai) data))))
     = length (filter (record_kept B spec) data)"
    by (induction data) (simp_all add: dat)
qed

lemma unsplit_key:
  assumes "spec_splitSeriesAccessors spec = None \<or> spec_splitSeriesAccessors spec = Some []"
    and "sm_vertical sm = None" "sm_horizontal sm = None"
    and "c \<in> set (contributions B spec isStacked stackMode sm d (a, i))"
  shows "fst c = getSeriesKey B (spec_id spec) a [] (Some DEFAULT_SINGLE_PANEL_SM_VALUE)
                   (Some DEFAULT_SINGLE_PANEL_SM_VALUE) (spec_groupId spec)"
proof -
  have "datum_head B spec d \<noteq> None"
    using assms(4) by (cases "datum_head B spec d") (simp_all add: contributions_def)
  then obtain x sa where h: "datum_head B spec d = Some (x, sa)"
    by (cases "datum_head B spec d") auto
  have "sa = getSplitAccessors B d []"
    using h assms(1) by (auto simp: datum_head_def Let_def split: if_splits jsvalue.splits)
  then have sa: "sa = []"
    by (simp add: getSplitAccessors_def)
  have "c = contribution B spec isStacked stackMode sm d x sa a i"
    using assms(4) h by (simp add: contributions_def)
  then show ?thesis
    using sa assms(2,3) by (simp add: contribution_def Let_def sm_value_def)
qed

text \<open>
  Claim C7, as amended. For a spec with one y accessor, no split accessors and no panel
  functions, in either branch: when no record is kept there is no series, and otherwise
  there is exactly one series, whose data has as many entries as there are kept records;
  the kept records are then the composite records with a string or a number as x value.
  For every spec, every datum of every series comes from a kept record of the dataset, so a
  record that fails a check, or the split resolution when split accessors are configured,
  contributes to no series.
\<close>

theorem split_single_series:
  "(spec_yAccessors spec = [a]
      \<and> (spec_splitSeriesAccessors spec = None \<or> spec_splitSeriesAccessors spec = Some [])
      \<and> sm_vertical smallMultiples = None \<and> sm_horizontal smallMultiples = None \<longrightarrow>
      (filter (record_kept B spec) (spec_data spec) = [] \<longrightarrow>
         r_dataSeries (splitSeriesDataByAccessors B spec acc isStacked enableVislibSeriesSort
           stackMode smallMultiples) = [])
      \<and> (filter (record_kept B spec) (spec_data spec) \<noteq> [] \<longrightarrow>
         (\<exists>k s. r_dataSeries (splitSeriesDataByAccessors B spec acc isStacked enableVislibSeriesSort
                   stackMode smallMultiples) = [(k, s)]
              \<and> length (s_data s) = length (filter (record_kept B spec) (spec_data spec))))
      \<and> (\<forall>datum. record_kept B spec datum =
           (is_object datum
            \<and> (typeof (getAccessorValue B datum (spec_xAccessor spec)) = ''string''
               \<or> typeof (getAccessorValue B datum (spec_xAccessor spec)) = ''number''))))
   \<and> (\<forall>e \<in> set (r_dataSeries (splitSeriesDataByAccessors B spec acc isStacked
                      enableVislibSeriesSort stackMode smallMultiples)).
        \<forall>d \<in> set (s_data (snd e)).
          d_datum d \<in> set (spec_data spec) \<and> record_kept B spec (d_datum d))"
proof -
  let ?r = "r_dataSeries (splitSeriesDataByAccessors B spec acc isStacked enableVislibSeriesSort
           stackMode smallMultiples)"
  let ?kept = "filter (record_kept B spec) (spec_data spec)"
  have general: "\<forall>e \<in> set ?r. \<forall>d \<in> set (s_data (snd e)).
          d_datum d \<in> set (spec_data spec) \<and> record_kept B spec (d_datum d)"
    using split_data_from_kept[of _ B spec acc isStacked enableVislibSeriesSort stackMode smallMultiples]
    by blast
  have special: "(?kept = [] \<longrightarrow> ?r = [])
      \<and> (?kept \<noteq> [] \<longrightarrow> (\<exists>k s. ?r = [(k, s)] \<and> length (s_data s) = length ?kept))
      \<and> (\<forall>datum. record_kept B spec datum =
           (is_object datum
            \<and> (typeof (getAccessorValue B datum (spec_xAccessor spec)) = ''string''
               \<or> typeof (getAccessorValue B datum (spec_xAccessor spec)) = ''number'')))"
    if ya: "spec_yAccessors spec = [a]"
      and ssa: "spec_splitSeriesAccessors spec = None \<or> spec_splitSeriesAccessors spec = Some []"
      and sm: "sm_vertical smallMultiples = None" "sm_horizontal smallMultiples = None"
  proof -
    let ?cs = "concat (map (\<lambda>d. contributions B spec isStacked stackMode smallMultiples d (a, 0))
                                (spec_data spec))"
    let ?k = "getSeriesKey B (spec_id spec) a [] (Some DEFAULT_SINGLE_PANEL_SM_VALUE)
                   (Some DEFAULT_SINGLE_PANEL_SM_VALUE) (spec_groupId spec)"
    have r: "?r = fold ds_add ?cs []"
      by (rule single_accessor_contributions[OF ya])
    have len: "length ?cs = length ?kept"
      by (rule contributions_length(1))
    have key: "fst c = ?k" if "c \<in> set ?cs" for c
    proof -
      from that obtain d where "c \<in> set (contributions B spec isStacked stackMode smallMultiples d (a, 0))"
        by auto
      then show ?thesis
        by (rule unsplit_key[OF ssa sm])
    qed
    have empty: "?r = []" if "?kept = []"
    proof -
      have "?cs = []"
        using that len by (metis length_0_conv)
      then show ?thesis
        by (simp only: r fold_simps id_apply)
    qed
    have one: "\<exists>k s. ?r = [(k, s)] \<and> length (s_data s) = length ?kept" if "?kept \<noteq> []"
    proof -
      have "?cs \<noteq> []"
        using that len by (metis length_0_conv)
      from fold_ds_add_one_series[of ?cs ?k, OF key this]
      obtain s where "fold ds_add ?cs [] = [(?k, s)]"
        "s_data s = concat (map (\<lambda>c. s_data (snd c)) ?cs)"
        by blast
      then show ?thesis
        using r contributions_length(2)[of B spec isStacked stackMode smallMultiples "(a, 0)" "spec_data spec"]
        by (intro exI[of _ ?k] exI[of _ s]) simp
    qed
    have kept: "record_kept B spec datum =
           (is_object datum
            \<and> (typeof (getAccessorValue B datum (spec_xAccessor spec)) = ''string''
               \<or> typeof (getAccessorValue B datum (spec_xAccessor spec)) = ''number''))" for datum
      using ssa by (auto simp: record_kept_def)
    show ?thesis
      using empty one kept by blast
  qed
  show ?thesis
    using special general by blast
qed

theorem split_single_series_witness:
  "\<exists>k s. r_dataSeries (splitSeriesDataByAccessors example_builtins example_spec Map.empty False False
             None None) = [(k, s)]
       \<and> length (s_data s) = 2"
proof -
  have h: "spec_yAccessors example_spec = [PStr ''y'']
      \<and> (spec_splitSeriesAccessors example_spec = None \<or> spec_splitSeriesAccessors example_spec = Some [])
      \<and> sm_vertical None = None \<and> sm_horizontal None = None"
    by (simp add: example_spec_def sm_vertical_def sm_horizontal_def)
  have k: "filter (record_kept example_builtins example_spec) (spec_data example_spec)
      = spec_data example_spec"
    by (simp add: example_spec_def record_kept_def is_object_def get_prop_def)
  have n: "length (spec_data example_spec) = 2"
    by (simp add: example_spec_def)
  from split_single_series[of example_spec "PStr ''y''" None example_builtins Map.empty False False None]
    h k n
  show ?thesis
    by (metis length_0_conv zero_neq_numeral)
qed

text \<open>
  The claim as stated fails when no record is kept: a series is created when its first
  datum arrives, so the dataset \<open>[null]\<close> yields no series at all.
\<close>

theorem split_no_series_counterexample:
  "spec_yAccessors (example_spec\<lparr>spec_data := [JNull]\<rparr>) = [PStr ''y'']
   \<and> spec_splitSeriesAccessors (example_spec\<lparr>spec_data := [JNull]\<rparr>) = None
   \<and> r_dataSeries (splitSeriesDataByAccessors example_builtins (example_spec\<lparr>spec_data := [JNull]\<rparr>)
        Map.empty False False None None) = []
   \<and> r_dataSeries (splitSeriesDataByAccessors example_builtins (example_spec\<lparr>spec_data := [JNull]\<rparr>)
        Map.empty False True None None) = []"
  by (simp add: splitSeriesDataByAccessors_def Let_def traverse_legacy traverse_default
      example_spec_def contributions_def datum_head_def getSplitAccessors_def is_object_def
      indexed_def)

section \<open>Coercion to numbers and the warning\<close>














section \<open>The fallback scale\<close>

lemma set_getSortedOrdinalXValues: "set (getSortedOrdinalXValues xs acc ob) = set xs"
  by (cases ob) (simp_all add: getSortedOrdinalXValues_def set_new_Set set_js_sort)

lemma fold_xValue_step:
  "fold xValue_step xs (b, gx) = (b \<and> (\<forall>x \<in> set xs. is_number x), fold set_add xs gx)"
proof (induction xs arbitrary: b gx)
  case Nil
  show ?case by simp
next
  case (Cons x xs)
  have "xValue_step x (b, gx) = (b \<and> is_number x, set_add x gx)"
    by (auto simp: xValue_step_def)
  then show ?case
    by (simp only: fold_simps comp_apply Cons.IH) auto
qed

lemma spec_step_fields:
  "g_isOrdinalScale (spec_step B grp des flag sm spec g)
     = (spec_xScaleType spec = Ordinal \<or> g_isOrdinalScale g)"
  "g_isNumberArray (spec_step B grp des flag sm spec g)
     = (g_isNumberArray g
        \<and> (\<forall>x \<in> set (r_xValues (splitSeriesDataByAccessors B spec (g_xValueSums g)
                 (case grp (spec_groupId spec) of
                    None \<Rightarrow> False
                  | Some y \<Rightarrow> find (\<lambda>s. spec_id s = spec_id spec) (yg_stacked y) \<noteq> None)
                 flag (case grp (spec_groupId spec) of None \<Rightarrow> None | Some y \<Rightarrow> yg_stackMode y) sm)).
              is_number x))"
  "set (g_xValues (spec_step B grp des flag sm spec g))
     = set (g_xValues g)
       \<union> set (r_xValues (splitSeriesDataByAccessors B spec (g_xValueSums g)
                 (case grp (spec_groupId spec) of
                    None \<Rightarrow> False
                  | Some y \<Rightarrow> find (\<lambda>s. spec_id s = spec_id spec) (yg_stacked y) \<noteq> None)
                 flag (case grp (spec_groupId spec) of None \<Rightarrow> None | Some y \<Rightarrow> yg_stackMode y) sm))"
  by (auto simp: spec_step_def Let_def fold_xValue_step set_fold_set_add)

lemma r_xValues_eq:
  "r_xValues (splitSeriesDataByAccessors B spec acc isStacked flag stackMode sm) = split_xs B spec flag"
  by (cases flag)
     (simp_all add: splitSeriesDataByAccessors_def Let_def traverse_legacy traverse_default split_xs_def)

lemma specs_fold_fields:
  "g_isOrdinalScale (fold (spec_step B grp des flag sm) specs g)
     = (g_isOrdinalScale g \<or> (\<exists>s \<in> set specs. spec_xScaleType s = Ordinal))
   \<and> g_isNumberArray (fold (spec_step B grp des flag sm) specs g)
     = (g_isNumberArray g \<and> (\<forall>s \<in> set specs. \<forall>x \<in> set (split_xs B s flag). is_number x))
   \<and> set (g_xValues (fold (spec_step B grp des flag sm) specs g))
     = set (g_xValues g) \<union> (\<Union>s \<in> set specs. set (split_xs B s flag))"
proof (induction specs arbitrary: g)
  case Nil
  show ?case by simp
next
  case (Cons s specs)
  show ?case
    by (simp only: fold_simps comp_apply Cons.IH spec_step_fields r_xValues_eq) auto
qed

text \<open>
  Claim C6. \<open>getDataSeriesFromSpecs\<close> returns the fallback scale \<open>Ordinal\<close> exactly when no
  spec declares an ordinal x scale and some x value of the returned domain is not a number,
  and \<open>undefined\<close> in every other case; the values of the domain are the x values collected
  by the splitter over all specs.
\<close>

theorem fallbackScale_iff:
  "fallbackScale (getDataSeriesFromSpecs B groupSeriesByYGroup seriesSpecs deselectedDataSeries
       orderOrdinalBinsBy enableVislibSeriesSort smallMultiples) =
     (if (\<forall>spec \<in> set seriesSpecs. spec_xScaleType spec \<noteq> Ordinal)
         \<and> (\<exists>x \<in> set (out_xValues (getDataSeriesFromSpecs B groupSeriesByYGroup seriesSpecs
                 deselectedDataSeries orderOrdinalBinsBy enableVislibSeriesSort smallMultiples)).
               \<not> is_number x)
      then Some Ordinal else None)
   \<and> set (out_xValues (getDataSeriesFromSpecs B groupSeriesByYGroup seriesSpecs
            deselectedDataSeries orderOrdinalBinsBy enableVislibSeriesSort smallMultiples))
     = (\<Union>spec \<in> set seriesSpecs.
          set (r_xValues (splitSeriesDataByAccessors B spec acc isStacked enableVislibSeriesSort
                 stackMode smallMultiples)))"
proof -
  let ?g = "specs_loop B (groupSeriesByYGroup seriesSpecs) deselectedDataSeries
              enableVislibSeriesSort smallMultiples seriesSpecs"
  let ?res = "getDataSeriesFromSpecs B groupSeriesByYGroup seriesSpecs deselectedDataSeries
       orderOrdinalBinsBy enableVislibSeriesSort smallMultiples"
  note f = specs_fold_fields[of B "groupSeriesByYGroup seriesSpecs" deselectedDataSeries
      enableVislibSeriesSort smallMultiples seriesSpecs
      "\<lparr>g_dataSeries = [], g_seriesCollection = [], g_xValueSums = Map.empty, g_xValues = [],
        g_smVValues = [], g_smHValues = [], g_isNumberArray = True, g_isOrdinalScale = False,
        g_warnings = []\<rparr>"]
  have ord: "g_isOrdinalScale ?g = (\<exists>s \<in> set seriesSpecs. spec_xScaleType s = Ordinal)"
    using f by (simp add: specs_loop_def)
  have num: "g_isNumberArray ?g
      = (\<forall>s \<in> set seriesSpecs. \<forall>x \<in> set (split_xs B s enableVislibSeriesSort). is_number x)"
    using f by (simp add: specs_loop_def)
  have xs: "set (g_xValues ?g) = (\<Union>s \<in> set seriesSpecs. set (split_xs B s enableVislibSeriesSort))"
    using f by (simp add: specs_loop_def)
  have out: "set (out_xValues ?res) = set (g_xValues ?g)"
    by (simp add: getDataSeriesFromSpecs_def Let_def set_getSortedOrdinalXValues set_new_Set
        set_js_sort)
  have fb: "fallbackScale ?res
      = (if \<not> g_isOrdinalScale ?g \<and> \<not> g_isNumberArray ?g then Some Ordinal else None)"
    by (simp add: getDataSeriesFromSpecs_def Let_def)
  have nn: "(\<not> g_isNumberArray ?g) = (\<exists>x \<in> set (out_xValues ?res). \<not> is_number x)"
    unfolding out xs num by blast
  have a: "fallbackScale ?res =
     (if (\<forall>spec \<in> set seriesSpecs. spec_xScaleType spec \<noteq> Ordinal)
         \<and> (\<exists>x \<in> set (out_xValues ?res). \<not> is_number x)
      then Some Ordinal else None)"
    unfolding fb ord nn[symmetric] by auto
  have b: "set (out_xValues ?res)
     = (\<Union>spec \<in> set seriesSpecs.
          set (r_xValues (splitSeriesDataByAccessors B spec acc isStacked enableVislibSeriesSort
                 stackMode smallMultiples)))"
    unfolding out xs r_xValues_eq ..
  show ?thesis
    using a b by (rule conjI)
qed

lemma example_two_out_xValues:
  "out_xValues (getDataSeriesFromSpecs example_builtins (\<lambda>specs. Map.empty) [example_two] [] None
     False None) = [PStr ''a'']"
  by (simp add: getDataSeriesFromSpecs_def Let_def specs_loop_def spec_step_def r_xValues_eq
      split_xs_def valid_xs_def head_xs_def datum_head_def getSplitAccessors_def get_prop_def
      example_two_def example_spec_def example_builtins_def xValue_step_def
      getSortedOrdinalXValues_def)

theorem fallbackScale_iff_witness:
  "fallbackScale (getDataSeriesFromSpecs example_builtins (\<lambda>specs. Map.empty) [example_two] [] None
     False None) = Some Ordinal
   \<and> fallbackScale (getDataSeriesFromSpecs example_builtins (\<lambda>specs. Map.empty)
        [example_two\<lparr>spec_xScaleType := Ordinal\<rparr>] [] None False None) = None"
proof -
  have a: "fallbackScale (getDataSeriesFromSpecs example_builtins (\<lambda>specs. Map.empty) [example_two] []
      None False None) = Some Ordinal"
    using fallbackScale_iff[of example_builtins "\<lambda>specs. Map.empty" "[example_two]" "[]" None False None]
    by (simp add: example_two_out_xValues) (simp add: example_two_def example_spec_def)
  have b: "fallbackScale (getDataSeriesFromSpecs example_builtins (\<lambda>specs. Map.empty)
        [example_two\<lparr>spec_xScaleType := Ordinal\<rparr>] [] None False None) = None"
    using fallbackScale_iff[of example_builtins "\<lambda>specs. Map.empty"
        "[example_two\<lparr>spec_xScaleType := Ordinal\<rparr>]" "[]" None False None]
    by simp
  show ?thesis using a b by simp
qed

end
